theory Spec2Isabelle
  imports Complex_Main "HOL-Library.Signed_Division"
begin

section \<open>JavaScript values and arithmetic\<close>

text \<open>
  The game in \<^verbatim>\<open>src/game.js\<close> computes with JavaScript numbers, which are IEEE-754
  doubles. A number is modelled as the real it denotes, and every addition and subtraction
  of angles, speeds and tilt samples rounds its exact result to the nearest double
  (\<open>fl\<close> below). The counters \<open>lives\<close> and \<open>points\<close> and the millisecond clock
  \<open>Date.now()\<close> are integers far below \<open>2^53\<close>, where doubles are exact, and are
  modelled as integers. \<open>NaN\<close> and the infinities are not modelled: a result beyond
  the largest double, which the code would turn into an infinity, is still rounded to a
  finite number here. The \<open>beta\<close> field of a \<open>deviceorientation\<close> event is a number,
  \<open>null\<close> or \<open>undefined\<close>.
\<close>

datatype jsval = Null | Undefined | Num real

text \<open>
  Rounding to the nearest double, ties to the even significand: \<open>expo x\<close> is the binary
  exponent of \<open>x\<close> (not below \<open>-1022\<close>, where the subnormal numbers begin), the
  significand has 53 bits, so the doubles around \<open>x\<close> are the integer multiples of
  \<open>2 powi (expo x - 52)\<close>, and \<open>rte\<close> picks the nearest integer, the even one on a tie.
\<close>

definition rte :: "real \<Rightarrow> int" where
  "rte y =
     (let f = \<lfloor>y\<rfloor>; d = y - of_int f in
      if d < 1 / 2 then f else if 1 / 2 < d then f + 1 else if even f then f else f + 1)"

definition expo :: "real \<Rightarrow> int" where
  "expo x = max \<lfloor>log 2 \<bar>x\<bar>\<rfloor> (- 1022)"

definition fl :: "real \<Rightarrow> real" where
  "fl x = (if x = 0 then 0
           else 2 powi (expo x - 52) * of_int (rte (x / 2 powi (expo x - 52))))"

text \<open>
  The remainder operator \<^verbatim>\<open>%\<close> of JavaScript truncates the quotient towards zero, so the
  result has the sign of the dividend; on doubles its result is exact, so it does not
  round. On integers it is \<open>smod\<close>.
\<close>

definition js_rem :: "real \<Rightarrow> real \<Rightarrow> real" where
  "js_rem x y = x - y * of_int (if 0 \<le> x / y then \<lfloor>x / y\<rfloor> else \<lceil>x / y\<rceil>)"

section \<open>The game object\<close>

text \<open>
  The content written to \<open>messageElement.innerHTML\<close>: the welcome prompt of
  \<open>showWelcomeMessage\<close>, the "Good job!" text of the \<open>points > 12\<close> branch of \<open>endGame\<close>, or
  its "You still look thirsty, have another try!" text.
\<close>

datatype message = WelcomeMessage | WinMessage | LoseMessage

text \<open>
  One record per \<open>SunkistGame\<close> instance. Besides the fields of the object it holds the
  state that the instance owns in its environment: whether its bound \<open>handleMotion\<close> is
  registered for \<open>deviceorientation\<close> on \<open>window\<close> (\<open>subscribed\<close>), the ids of its
  animation-frame callbacks that the browser still has to run (\<open>scheduledFrames\<close>), and what
  it last wrote to the DOM elements it references. The beam colour, the blink timer with
  its flag \<open>isBlinking\<close> and the vibration are feedback only and are left out, as is the
  field \<open>lastBeta\<close>, which is set to \<open>null\<close> and never read.
\<close>

record game =
  rotation :: real
  speed :: real
  lives :: int
  points :: int
  isGameOver :: bool
  lastTiltTime :: int
  recentBetas :: "real list"
  animationFrameId :: "nat option"
  subscribed :: bool
  scheduledFrames :: "nat list"
  canContainerRotate :: real
  livesElement :: int
  pointsElement :: int
  messageHTML :: message
  messageDisplay :: bool

text \<open>\<open>showWelcomeMessage\<close>\<close>

definition showWelcomeMessage :: "game \<Rightarrow> game" where
  "showWelcomeMessage g = g\<lparr>messageHTML := WelcomeMessage, messageDisplay := True\<rparr>"

text \<open>\<open>initializeGame\<close>: resets the fields of the object and the display.\<close>

definition initializeGame :: "game \<Rightarrow> game" where
  "initializeGame g =
     showWelcomeMessage
       (g\<lparr>rotation := 0, speed := 4, lives := 3, points := 0, isGameOver := False,
          lastTiltTime := 0, recentBetas := [], animationFrameId := None,
          canContainerRotate := 0, livesElement := 3, pointsElement := 0\<rparr>)"

text \<open>
  The constructor: a new object has no listener on \<open>window\<close> and no scheduled frame; every
  other field is set by \<open>initializeGame\<close>.
\<close>

definition SunkistGame :: game where
  "SunkistGame =
     initializeGame
       \<lparr>rotation = 0, speed = 0, lives = 0, points = 0, isGameOver = False,
        lastTiltTime = 0, recentBetas = [], animationFrameId = None,
        subscribed = False, scheduledFrames = [], canContainerRotate = 0,
        livesElement = 0, pointsElement = 0, messageHTML = WelcomeMessage,
        messageDisplay = False\<rparr>"

text \<open>
  The guard \<^verbatim>\<open>if (this.animationFrameId) { cancelAnimationFrame(...); ... = null; }\<close> that
  opens \<open>start\<close> and \<open>gameLoop\<close> and sits in \<open>cleanup\<close>. A request id of 0 would be falsy.
\<close>

definition cancelFrame :: "game \<Rightarrow> game" where
  "cancelFrame g =
     (case animationFrameId g of
        None \<Rightarrow> g
      | Some i \<Rightarrow>
          if i = 0 then g
          else g\<lparr>scheduledFrames := removeAll i (scheduledFrames g), animationFrameId := None\<rparr>)"

text \<open>\<open>cleanup\<close>\<close>

definition cleanup :: "game \<Rightarrow> game" where
  "cleanup g =
     (cancelFrame (g\<lparr>subscribed := False\<rparr>))
       \<lparr>isGameOver := True, rotation := 0, speed := 4, canContainerRotate := 0\<rparr>"

text \<open>
  \<open>gameLoop\<close>; \<open>rid\<close> is the id that \<open>requestAnimationFrame\<close> hands out when it is called.
\<close>

definition gameLoop :: "nat \<Rightarrow> game \<Rightarrow> game" where
  "gameLoop rid g =
     (let g1 = cancelFrame g in
      if \<not> isGameOver g1 then
        (let r = js_rem (fl (rotation g1 + speed g1)) 360 in
         g1\<lparr>rotation := r, canContainerRotate := r, animationFrameId := Some rid,
            scheduledFrames := scheduledFrames g1 @ [rid]\<rparr>)
      else g1)"

text \<open>\<open>start\<close>\<close>

definition start :: "nat \<Rightarrow> game \<Rightarrow> game" where
  "start rid g =
     gameLoop rid
       ((cancelFrame g)\<lparr>lives := 3, points := 0, isGameOver := False, rotation := 0,
          speed := 4, livesElement := 3, pointsElement := 0, canContainerRotate := 0,
          subscribed := True\<rparr>)"

text \<open>\<open>endGame\<close>\<close>

definition endGame :: "game \<Rightarrow> game" where
  "endGame g =
     (let g1 = cleanup g in
      g1\<lparr>messageHTML := (if points g1 > 12 then WinMessage else LoseMessage),
         messageDisplay := True\<rparr>)"

text \<open>
  \<open>checkHit\<close>, with its two local constants as functions of the rotation. The literal
  \<^verbatim>\<open>0.7\<close> is the double nearest to 7/10.
\<close>

definition normalizedRotation :: "real \<Rightarrow> real" where
  "normalizedRotation r = js_rem (fl (js_rem r 360 + 360)) 360"

definition isInTargetZone :: "real \<Rightarrow> bool" where
  "isInTargetZone r = (normalizedRotation r \<ge> 335 \<or> normalizedRotation r \<le> 25)"

definition checkHit :: "game \<Rightarrow> game" where
  "checkHit g =
     (if isInTargetZone (rotation g) then
        (let g1 = g\<lparr>points := points g + 1\<rparr>;
             g2 = g1\<lparr>pointsElement := points g1\<rparr>
         in if points g2 smod 5 = 0 then g2\<lparr>speed := fl (speed g2 + fl (7 / 10))\<rparr> else g2)
      else
        (let g1 = g\<lparr>lives := lives g - 1\<rparr>;
             g2 = g1\<lparr>livesElement := lives g1\<rparr>
         in if lives g2 \<le> 0 then endGame g2 else g2))"

text \<open>
  \<open>handleMotion\<close>. \<open>pushBeta\<close> is the \<open>push\<close> followed by the conditional \<open>shift\<close>,
  \<open>movement\<close> the local constant of that name. The two calls of \<open>Date.now()\<close> are the
  parameters \<open>now1\<close> (in the condition) and \<open>now2\<close> (the stamp).
\<close>

definition pushBeta :: "real \<Rightarrow> real list \<Rightarrow> real list" where
  "pushBeta b bs = (let bs1 = bs @ [b] in if length bs1 > 3 then tl bs1 else bs1)"

definition movement :: "real list \<Rightarrow> real" where
  "movement bs = (if length bs \<ge> 2 then fl (bs ! (length bs - 1) - bs ! 0) else 0)"

definition handleMotion :: "jsval \<Rightarrow> int \<Rightarrow> int \<Rightarrow> game \<Rightarrow> game" where
  "handleMotion beta now1 now2 g =
     (case beta of
        Null \<Rightarrow> g
      | Undefined \<Rightarrow> g
      | Num b \<Rightarrow>
          (let g1 = g\<lparr>recentBetas := pushBeta b (recentBetas g)\<rparr> in
           if movement (recentBetas g1) > 8 \<and> now1 - lastTiltTime g1 > 200
           then (checkHit g1)\<lparr>lastTiltTime := now2\<rparr>
           else g1))"

section \<open>The page: the global game slot and the events of the browser\<close>

text \<open>
  \<open>currentGame\<close> is the global of that name (\<open>None\<close> is \<open>null\<close>). \<open>detached\<close> collects the
  instances that \<open>restartGame\<close> has replaced: the page no longer refers to them, but a
  listener or frame callback they still owned would keep being called.
\<close>

record page =
  currentGame :: "game option"
  detached :: "game list"

definition emptyPage :: page where
  "emptyPage = \<lparr>currentGame = None, detached = []\<rparr>"

text \<open>The \<open>load\<close> listener at the end of the file.\<close>

definition pageLoad :: "page \<Rightarrow> page" where
  "pageLoad w = w\<lparr>currentGame := Some SunkistGame\<rparr>"

text \<open>
  \<open>startGame\<close>: \<open>granted\<close> says that no permission is needed or that it was granted; in
  every other case the function returns before it touches the game.
\<close>

definition startGame :: "bool \<Rightarrow> nat \<Rightarrow> page \<Rightarrow> page" where
  "startGame granted rid w =
     (if \<not> granted then w
      else case currentGame w of
             None \<Rightarrow> w
           | Some g \<Rightarrow> w\<lparr>currentGame := Some (start rid (g\<lparr>messageDisplay := False\<rparr>))\<rparr>)"

text \<open>\<open>restartGame\<close>\<close>

definition restartGame :: "page \<Rightarrow> page" where
  "restartGame w =
     (case currentGame w of
        None \<Rightarrow> w\<lparr>currentGame := Some SunkistGame\<rparr>
      | Some g \<Rightarrow> w\<lparr>detached := cleanup g # detached w, currentGame := Some SunkistGame\<rparr>)"

text \<open>
  What the browser does with an instance: a \<open>deviceorientation\<close> event reaches
  \<open>handleMotion\<close> only while the listener is registered, and an animation frame runs the
  oldest callback the instance has scheduled.
\<close>

definition deliverOrientation :: "jsval \<Rightarrow> int \<Rightarrow> int \<Rightarrow> game \<Rightarrow> game" where
  "deliverOrientation beta now1 now2 g =
     (if subscribed g then handleMotion beta now1 now2 g else g)"

definition deliverFrame :: "nat \<Rightarrow> game \<Rightarrow> game" where
  "deliverFrame rid g =
     (case scheduledFrames g of
        [] \<Rightarrow> g
      | f # fs \<Rightarrow> gameLoop rid (g\<lparr>scheduledFrames := fs\<rparr>))"

definition onInstances :: "(game \<Rightarrow> game) \<Rightarrow> page \<Rightarrow> page" where
  "onInstances f w =
     w\<lparr>currentGame := map_option f (currentGame w), detached := map f (detached w)\<rparr>"

text \<open>
  The events of a session after the page has loaded. A tap runs \<open>startGame\<close> (the one-shot
  arming of the click and touch listeners is not modelled: a tap may come at any time), the
  "Play Again" button runs \<open>restartGame\<close>.
\<close>

datatype event =
    Tap bool nat
  | PlayAgain
  | Orientation jsval int int
  | AnimationFrame nat

fun step :: "event \<Rightarrow> page \<Rightarrow> page" where
  "step (Tap granted rid) w = startGame granted rid w"
| "step PlayAgain w = restartGame w"
| "step (Orientation beta now1 now2) w = onInstances (deliverOrientation beta now1 now2) w"
| "step (AnimationFrame rid) w = onInstances (deliverFrame rid) w"

fun run :: "event list \<Rightarrow> page \<Rightarrow> page" where
  "run [] w = w"
| "run (e # es) w = run es (step e w)"

definition instances :: "page \<Rightarrow> game list" where
  "instances w = (case currentGame w of None \<Rightarrow> [] | Some g \<Rightarrow> [g]) @ detached w"

definition activeSubscriptions :: "page \<Rightarrow> nat" where
  "activeSubscriptions w = length (filter subscribed (instances w))"

text \<open>
  The calls one instance receives during play, for statements about a single run:
  a frame callback or an orientation sample.
\<close>

datatype call = Tick nat | Sample jsval int int

fun play :: "call list \<Rightarrow> game \<Rightarrow> game" where
  "play [] g = g"
| "play (Tick rid # cs) g = play cs (gameLoop rid g)"
| "play (Sample beta now1 now2 # cs) g = play cs (handleMotion beta now1 now2 g)"


text \<open>The samples of a call sequence that carry a number, in arrival order.\<close>

fun acceptedBetas :: "call list \<Rightarrow> real list" where
  "acceptedBetas [] = []"
| "acceptedBetas (Sample (Num b) now1 now2 # cs) = b # acceptedBetas cs"
| "acceptedBetas (c # cs) = acceptedBetas cs"

text \<open>
  A call that took the game from \<open>g\<close> to \<open>h\<close> registered a gesture when it evaluated
  a hit, which shows as a point gained or a life lost.
\<close>

definition registered :: "game \<Rightarrow> game \<Rightarrow> bool" where
  "registered g h = (points h \<noteq> points g \<or> lives h \<noteq> lives g)"

text \<open>
  The gestures of a call sequence that registered, each with its two clock readings, in
  order.
\<close>

fun accepted :: "call list \<Rightarrow> game \<Rightarrow> (int \<times> int) list" where
  "accepted [] g = []"
| "accepted (Tick rid # cs) g = accepted cs (gameLoop rid g)"
| "accepted (Sample beta now1 now2 # cs) g =
     (if registered g (handleMotion beta now1 now2 g) then [(now1, now2)] else [])
     @ accepted cs (handleMotion beta now1 now2 g)"

text \<open>
  Every gesture of the list was checked more than 200 ms after the stamp before it,
  starting from the stamp \<open>t\<close>.
\<close>

fun spaced :: "int \<Rightarrow> (int \<times> int) list \<Rightarrow> bool" where
  "spaced t [] = True"
| "spaced t ((now1, now2) # as) = (now1 - t > 200 \<and> spaced now2 as)"

text \<open>The clock readings of a call sequence, in the order in which they are taken.\<close>

fun clock :: "call list \<Rightarrow> int list" where
  "clock [] = []"
| "clock (Tick rid # cs) = clock cs"
| "clock (Sample beta now1 now2 # cs) = now1 # now2 # clock cs"

section \<open>Invariants\<close>

text \<open>
  What holds of every instance of a page, whatever events have arrived: lives and rotation
  stay in range, an instance that still listens for orientation events has a life left,
  an instance without lives is over, and the speed is a double not below the base speed.
\<close>

definition sound :: "game \<Rightarrow> bool" where
  "sound g =
     (0 \<le> lives g \<and> (subscribed g \<longrightarrow> 1 \<le> lives g) \<and> (lives g \<le> 0 \<longrightarrow> isGameOver g)
      \<and> 0 \<le> rotation g \<and> rotation g < 360 \<and> 4 \<le> speed g \<and> fl (speed g) = speed g)"

text \<open>Every instance is sound, and no replaced instance listens any more.\<close>

definition tidy :: "page \<Rightarrow> bool" where
  "tidy w = (list_all sound (instances w) \<and> list_all (\<lambda>g. \<not> subscribed g) (detached w))"

fun isTick :: "call \<Rightarrow> bool" where
  "isTick (Tick rid) = True"
| "isTick (Sample beta now1 now2) = False"

text \<open>
  The fields that the calls of a run read and write, gathered so that a run on a concrete
  instance can be followed call by call.
\<close>

definition summary :: "game \<Rightarrow> real \<times> real \<times> int \<times> int \<times> bool \<times> int \<times> real list" where
  "summary g =
     (rotation g, speed g, lives g, points g, isGameOver g, lastTiltTime g, recentBetas g)"


section \<open>Rounding to a double\<close>

lemma rte_of_int [simp]: "rte (of_int n) = n"
  by (simp add: rte_def)

lemma rte_cases:
  "rte y = \<lfloor>y\<rfloor> \<or> rte y = \<lfloor>y\<rfloor> + 1"
  by (simp add: rte_def Let_def)

lemma rte_lower: "y - of_int \<lfloor>y\<rfloor> > 1 / 2 \<Longrightarrow> rte y = \<lfloor>y\<rfloor> + 1"
  by (simp add: rte_def Let_def)

lemma rte_upper: "y - of_int \<lfloor>y\<rfloor> < 1 / 2 \<Longrightarrow> rte y = \<lfloor>y\<rfloor>"
  by (simp add: rte_def Let_def)

lemma rte_mono: "y \<le> y' \<Longrightarrow> rte y \<le> rte y'"
proof -
  assume le: "y \<le> y'"
  then have fm: "\<lfloor>y\<rfloor> \<le> \<lfloor>y'\<rfloor>" by (rule floor_mono)
  show ?thesis
  proof (cases "\<lfloor>y\<rfloor> = \<lfloor>y'\<rfloor>")
    case True
    then have "y - of_int \<lfloor>y\<rfloor> \<le> y' - of_int \<lfloor>y'\<rfloor>" using le by simp
    then show ?thesis using True by (auto simp add: rte_def Let_def)
  next
    case False
    with fm have "\<lfloor>y\<rfloor> + 1 \<le> \<lfloor>y'\<rfloor>" by simp
    moreover have "rte y \<le> \<lfloor>y\<rfloor> + 1" using rte_cases [of y] by auto
    moreover have "\<lfloor>y'\<rfloor> \<le> rte y'" using rte_cases [of y'] by auto
    ultimately show ?thesis by simp
  qed
qed

lemma rte_minus: "rte (- y) = - rte y"
proof (cases "y = of_int \<lfloor>y\<rfloor>")
  case True
  then obtain n where "y = of_int n" ..
  then have "- y = of_int (- n)" by simp
  then show ?thesis unfolding \<open>y = of_int n\<close> by (simp only: rte_of_int)
next
  case False
  have a: "of_int \<lfloor>y\<rfloor> \<le> y" by (rule of_int_floor_le)
  have b: "y < of_int \<lfloor>y\<rfloor> + 1" by linarith
  from a False have c: "of_int \<lfloor>y\<rfloor> < y" by (metis order_le_less)
  have e: "real_of_int (- \<lfloor>y\<rfloor> - 1) = - of_int \<lfloor>y\<rfloor> - 1" by simp
  have f: "\<lfloor>- y\<rfloor> = - \<lfloor>y\<rfloor> - 1"
  proof (rule floor_unique)
    show "of_int (- \<lfloor>y\<rfloor> - 1) \<le> - y" unfolding e using b by linarith
    show "- y < of_int (- \<lfloor>y\<rfloor> - 1) + 1" unfolding e using c by linarith
  qed
  have d: "- y - of_int (- \<lfloor>y\<rfloor> - 1) = 1 - (y - of_int \<lfloor>y\<rfloor>)" by simp
  show ?thesis
    unfolding rte_def Let_def f d by (cases "y - of_int \<lfloor>y\<rfloor> < 1 / 2"; cases "1 / 2 < y - of_int \<lfloor>y\<rfloor>") auto
qed

lemma expo_minus [simp]: "expo (- x) = expo x"
  by (simp add: expo_def)

lemma expo_ge: "- 1022 \<le> expo x"
  by (simp add: expo_def)

lemma floor_log_bounds:
  assumes "x \<noteq> 0"
  shows "2 powi \<lfloor>log 2 \<bar>x\<bar>\<rfloor> \<le> \<bar>x\<bar>" and "\<bar>x\<bar> < 2 powi (\<lfloor>log 2 \<bar>x\<bar>\<rfloor> + 1)"
proof -
  have p: "0 < \<bar>x\<bar>" using assms by simp
  have "(2::real) powr of_int \<lfloor>log 2 \<bar>x\<bar>\<rfloor> \<le> \<bar>x\<bar>
      \<and> \<bar>x\<bar> < 2 powr (of_int \<lfloor>log 2 \<bar>x\<bar>\<rfloor> + 1)"
    using floor_log_eq_powr_iff [of "\<bar>x\<bar>" 2 "\<lfloor>log 2 \<bar>x\<bar>\<rfloor>"] p by simp
  moreover have "(2::real) powr (of_int \<lfloor>log 2 \<bar>x\<bar>\<rfloor> + 1) = 2 powr of_int (\<lfloor>log 2 \<bar>x\<bar>\<rfloor> + 1)"
    by simp
  ultimately show "2 powi \<lfloor>log 2 \<bar>x\<bar>\<rfloor> \<le> \<bar>x\<bar>" and "\<bar>x\<bar> < 2 powi (\<lfloor>log 2 \<bar>x\<bar>\<rfloor> + 1)"
    by (simp_all only: powr_real_of_int' [of 2, simplified])
qed

lemma expo_upper: "x \<noteq> 0 \<Longrightarrow> \<bar>x\<bar> < 2 powi (expo x + 1)"
proof -
  assume x: "x \<noteq> 0"
  have "\<lfloor>log 2 \<bar>x\<bar>\<rfloor> + 1 \<le> expo x + 1" by (simp add: expo_def)
  then have "(2::real) powi (\<lfloor>log 2 \<bar>x\<bar>\<rfloor> + 1) \<le> 2 powi (expo x + 1)"
    by (intro power_int_increasing) simp_all
  with floor_log_bounds(2) [OF x] show ?thesis by linarith
qed

lemma expo_lower: "x \<noteq> 0 \<Longrightarrow> - 1022 < expo x \<Longrightarrow> 2 powi expo x \<le> \<bar>x\<bar>"
proof -
  assume x: "x \<noteq> 0" and e: "- 1022 < expo x"
  then have "expo x = \<lfloor>log 2 \<bar>x\<bar>\<rfloor>" by (simp add: expo_def max_def split: if_splits)
  with floor_log_bounds(1) [OF x] show ?thesis by simp
qed

lemma expo_eq:
  assumes "2 powi e \<le> \<bar>x\<bar>" and "\<bar>x\<bar> < 2 powi (e + 1)" and "- 1022 \<le> e"
  shows "expo x = e"
proof -
  have "(0::real) < 2 powi e" by simp
  with assms(1) have p: "0 < \<bar>x\<bar>" by linarith
  have "(2::real) powr of_int e \<le> \<bar>x\<bar>" "\<bar>x\<bar> < 2 powr (of_int e + 1)"
    using assms(1,2) powr_real_of_int' [of 2 e] powr_real_of_int' [of 2 "e + 1"] by simp_all
  then have "\<lfloor>log 2 \<bar>x\<bar>\<rfloor> = e"
    using floor_log_eq_powr_iff [of "\<bar>x\<bar>" 2 e] p by simp
  with assms(3) show ?thesis by (simp add: expo_def)
qed

lemma expo_mono: "0 < x \<Longrightarrow> x \<le> y \<Longrightarrow> expo x \<le> expo y"
proof -
  assume "0 < x" "x \<le> y"
  then have "log 2 \<bar>x\<bar> \<le> log 2 \<bar>y\<bar>" by simp
  then have "\<lfloor>log 2 \<bar>x\<bar>\<rfloor> \<le> \<lfloor>log 2 \<bar>y\<bar>\<rfloor>" by (rule floor_mono)
  then show ?thesis by (simp add: expo_def)
qed

lemma fl_0 [simp]: "fl 0 = 0"
  by (simp add: fl_def)

lemma fl_minus: "fl (- x) = - fl x"
  using rte_minus [of "x / 2 powi (expo x - 52)"] by (simp add: fl_def)

lemma powi_split: "(2::real) powi (e + 1) = 2 powi (e - 52) * 2 ^ 53"
proof -
  have a: "(2::real) powi ((e - 52) + 53) = 2 powi (e - 52) * 2 powi 53"
    by (rule power_int_add) simp
  have b: "(e - 52) + 53 = e + 1" by simp
  have c: "(2::real) powi 53 = 2 ^ 53" by simp
  from a show ?thesis unfolding b c .
qed

lemma powi_split': "(2::real) powi e = 2 powi (e - 52) * 2 ^ 52"
proof -
  have a: "(2::real) powi ((e - 52) + 52) = 2 powi (e - 52) * 2 powi 52"
    by (rule power_int_add) simp
  have b: "(e - 52) + 52 = e" by simp
  have c: "(2::real) powi 52 = 2 ^ 52" by simp
  from a show ?thesis unfolding b c .
qed

lemma rte_0 [simp]: "rte 0 = 0"
  by (simp add: rte_def)

lemma fl_pos:
  assumes "0 < x"
  shows "0 \<le> fl x" and "fl x \<le> 2 powi (expo x + 1)"
    and "- 1022 < expo x \<Longrightarrow> 2 powi expo x \<le> fl x"
proof -
  let ?u = "(2::real) powi (expo x - 52)"
  have u: "0 < ?u" by simp
  have f: "fl x = ?u * of_int (rte (x / ?u))" using assms by (simp add: fl_def)
  have "0 \<le> x / ?u" using assms by simp
  then have "rte 0 \<le> rte (x / ?u)" by (rule rte_mono)
  then have "0 \<le> rte (x / ?u)" by simp
  then show "0 \<le> fl x" unfolding f by simp
  have "x < ?u * 2 ^ 53" using expo_upper [of x] assms by (simp add: powi_split)
  then have "x / ?u \<le> of_int (2 ^ 53)" using u by (simp add: field_simps)
  then have "rte (x / ?u) \<le> rte (of_int (2 ^ 53))" by (rule rte_mono)
  then have "rte (x / ?u) \<le> 2 ^ 53" by (simp only: rte_of_int)
  then have "real_of_int (rte (x / ?u)) \<le> 2 ^ 53" by (metis of_int_le_iff of_int_numeral of_int_power)
  then have "?u * of_int (rte (x / ?u)) \<le> ?u * 2 ^ 53" using u by simp
  then show "fl x \<le> 2 powi (expo x + 1)" unfolding f by (simp only: powi_split)
  assume "- 1022 < expo x"
  then have "2 powi expo x \<le> x" using expo_lower [of x] assms by simp
  moreover have "?u * 2 ^ 52 = 2 powi expo x" by (rule powi_split' [symmetric])
  ultimately have "?u * 2 ^ 52 \<le> x" by (simp only:)
  then have "of_int (2 ^ 52) \<le> x / ?u" using u by (simp add: field_simps)
  then have "rte (of_int (2 ^ 52)) \<le> rte (x / ?u)" by (rule rte_mono)
  then have "2 ^ 52 \<le> rte (x / ?u)" by (simp only: rte_of_int)
  then have "2 ^ 52 \<le> real_of_int (rte (x / ?u))" by (metis of_int_le_iff of_int_numeral of_int_power)
  then have "?u * 2 ^ 52 \<le> ?u * of_int (rte (x / ?u))" using u by simp
  then show "2 powi expo x \<le> fl x" unfolding f by (simp only: powi_split' [symmetric])
qed

lemma fl_mono_pos:
  assumes "0 < x" and "x \<le> y"
  shows "fl x \<le> fl y"
proof -
  have y: "0 < y" using assms by simp
  have le: "expo x \<le> expo y" using assms by (rule expo_mono)
  show ?thesis
  proof (cases "expo x = expo y")
    case True
    let ?u = "(2::real) powi (expo y - 52)"
    have u: "0 < ?u" by simp
    have "x / ?u \<le> y / ?u" using assms(2) u by (simp add: divide_right_mono)
    then have "rte (x / ?u) \<le> rte (y / ?u)" by (rule rte_mono)
    then have "?u * of_int (rte (x / ?u)) \<le> ?u * of_int (rte (y / ?u))" using u by simp
    then show ?thesis using assms y True by (simp add: fl_def)
  next
    case False
    with le have lt: "expo x + 1 \<le> expo y" by simp
    then have "- 1022 < expo y" using expo_ge [of x] by simp
    then have a: "2 powi expo y \<le> fl y" using y by (intro fl_pos(3))
    have b: "fl x \<le> 2 powi (expo x + 1)" using assms(1) by (rule fl_pos(2))
    have "(2::real) powi (expo x + 1) \<le> 2 powi expo y"
      using lt by (intro power_int_increasing) simp_all
    with a b show ?thesis by linarith
  qed
qed

lemma fl_mono: "x \<le> y \<Longrightarrow> fl x \<le> fl y"
proof -
  assume le: "x \<le> y"
  consider "0 < x" | "x \<le> 0" "0 \<le> y" | "y < 0" by linarith
  then show ?thesis
  proof cases
    case 1
    then show ?thesis using le by (rule fl_mono_pos)
  next
    case 2
    have "fl x \<le> 0"
    proof (cases "x = 0")
      case True
      then show ?thesis by simp
    next
      case False
      with 2 have "0 < - x" by simp
      then have "0 \<le> fl (- x)" by (rule fl_pos(1))
      then show ?thesis by (simp add: fl_minus)
    qed
    moreover have "0 \<le> fl y"
    proof (cases "y = 0")
      case True
      then show ?thesis by simp
    next
      case False
      with 2 have "0 < y" by simp
      then show ?thesis by (rule fl_pos(1))
    qed
    ultimately show ?thesis by simp
  next
    case 3
    then have "0 < - y" "- y \<le> - x" using le by simp_all
    then have "fl (- y) \<le> fl (- x)" by (rule fl_mono_pos)
    then show ?thesis by (simp add: fl_minus)
  qed
qed

lemma fl_eval:
  assumes "2 powi e \<le> \<bar>x\<bar>" and "\<bar>x\<bar> < 2 powi (e + 1)" and "- 1022 \<le> e"
  shows "fl x = 2 powi (e - 52) * of_int (rte (x / 2 powi (e - 52)))"
proof -
  have "(0::real) < 2 powi e" by simp
  with assms(1) have "0 < \<bar>x\<bar>" by linarith
  then have "x \<noteq> 0" by simp
  moreover have "expo x = e" using assms by (rule expo_eq)
  ultimately show ?thesis by (simp add: fl_def)
qed

lemma fl_repr_lt:
  assumes m: "\<bar>m\<bar> < 2 ^ 53" and k: "- 1074 \<le> k"
  shows "fl (2 powi k * of_int m) = 2 powi k * of_int m"
proof (cases "m = 0")
  case True
  then show ?thesis by simp
next
  case False
  define x where "x = 2 powi k * real_of_int m"
  define e where "e = expo x"
  have x0: "x \<noteq> 0" using False by (simp add: x_def)
  have "real_of_int \<bar>m\<bar> < 2 ^ 53" using m by (metis of_int_less_iff of_int_numeral of_int_power)
  then have "2 powi k * real_of_int \<bar>m\<bar> < 2 powi k * 2 ^ 53" by simp
  moreover have "(2::real) powi (k + 53) = 2 powi k * 2 powi 53" by (rule power_int_add) simp
  ultimately have ub: "\<bar>x\<bar> < 2 powi (k + 53)" by (simp add: abs_mult x_def)
  have "\<lfloor>log 2 \<bar>x\<bar>\<rfloor> \<le> k + 52"
  proof (rule ccontr)
    assume "\<not> \<lfloor>log 2 \<bar>x\<bar>\<rfloor> \<le> k + 52"
    then have "k + 53 \<le> \<lfloor>log 2 \<bar>x\<bar>\<rfloor>" by simp
    then have "(2::real) powi (k + 53) \<le> 2 powi \<lfloor>log 2 \<bar>x\<bar>\<rfloor>"
      by (intro power_int_increasing) simp_all
    with floor_log_bounds(1) [OF x0] ub show False by linarith
  qed
  then have e: "e \<le> k + 52" using k by (simp add: expo_def e_def)
  define j where "j = nat (k - (e - 52))"
  have kj: "(e - 52) + int j = k" using e by (simp add: j_def)
  have "(2::real) powi ((e - 52) + int j) = 2 powi (e - 52) * 2 powi int j"
    by (rule power_int_add) simp
  then have pk: "(2::real) powi k = 2 powi (e - 52) * 2 ^ j"
    unfolding kj by simp
  have "x / 2 powi (e - 52) = 2 ^ j * real_of_int m"
    unfolding x_def pk by simp
  also have "\<dots> = real_of_int (2 ^ j * m)" by simp
  finally have q: "x / 2 powi (e - 52) = real_of_int (2 ^ j * m)" .
  have "fl x = 2 powi (e - 52) * of_int (rte (x / 2 powi (e - 52)))"
    using x0 unfolding e_def by (simp only: fl_def if_False)
  also have "\<dots> = 2 powi (e - 52) * of_int (2 ^ j * m)"
    unfolding q by (simp only: rte_of_int)
  also have "\<dots> = (2 powi (e - 52) * 2 ^ j) * of_int m" by simp
  also have "\<dots> = x" unfolding x_def by (simp only: pk [symmetric])
  finally show ?thesis unfolding x_def .
qed

lemma fl_repr:
  assumes m: "\<bar>m\<bar> \<le> 2 ^ 53" and k: "- 1074 \<le> k"
  shows "fl (2 powi k * of_int m) = 2 powi k * of_int m"
proof (cases "\<bar>m\<bar> = 2 ^ 53")
  case False
  with m have "\<bar>m\<bar> < 2 ^ 53" by simp
  then show ?thesis using k by (rule fl_repr_lt)
next
  case True
  then have "m = 2 ^ 53 \<or> m = - (2 ^ 53)" by (simp add: abs_if split: if_splits)
  then have d: "m = 2 * (m div 2)" "\<bar>m div 2\<bar> < 2 ^ 53" by auto
  then have h: "real_of_int m = 2 * real_of_int (m div 2)"
    by (metis of_int_mult of_int_numeral)
  have "- 1074 \<le> k + 1" using k by simp
  with d(2) have r: "fl (2 powi (k + 1) * of_int (m div 2)) = 2 powi (k + 1) * of_int (m div 2)"
    by (rule fl_repr_lt)
  have "(2::real) powi (k + 1) = 2 powi k * 2 powi 1" by (rule power_int_add) simp
  then have "(2::real) powi (k + 1) * of_int (m div 2) = 2 powi k * of_int m"
    unfolding h by simp
  with r show ?thesis by simp
qed

lemma fl_of_int: "\<bar>n\<bar> \<le> 2 ^ 53 \<Longrightarrow> fl (of_int n) = of_int n"
  using fl_repr [of n 0] by simp

lemma fl_numeral [simp]: "(numeral w :: int) \<le> 2 ^ 53 \<Longrightarrow> fl (numeral w) = numeral w"
  using fl_of_int [of "numeral w"] by simp

lemma fl_1 [simp]: "fl 1 = 1"
  using fl_of_int [of 1] by simp

lemma fl_idem [simp]: "fl (fl x) = fl x"
proof (cases "x = 0")
  case True
  then show ?thesis by simp
next
  case False
  let ?u = "(2::real) powi (expo x - 52)"
  have u: "0 < ?u" by simp
  have f: "fl x = ?u * of_int (rte (x / ?u))" using False by (simp add: fl_def)
  have "\<bar>x\<bar> < ?u * 2 ^ 53" using expo_upper [OF False] by (simp only: powi_split)
  then have a: "x / ?u \<le> of_int (2 ^ 53)" "of_int (- (2 ^ 53)) \<le> x / ?u"
    using u by (simp_all add: field_simps abs_less_iff)
  from rte_mono [OF a(1)] rte_mono [OF a(2)]
  have "rte (x / ?u) \<le> 2 ^ 53" "- (2 ^ 53) \<le> rte (x / ?u)" by (simp_all only: rte_of_int)
  then have "\<bar>rte (x / ?u)\<bar> \<le> 2 ^ 53" by simp
  moreover have "- 1074 \<le> expo x - 52" using expo_ge [of x] by simp
  ultimately show ?thesis unfolding f by (rule fl_repr)
qed

lemma fl_nonneg: "0 \<le> x \<Longrightarrow> 0 \<le> fl x"
  using fl_mono [of 0 x] by simp

section \<open>Remainders and the normalised rotation\<close>

lemma js_rem_nonneg_eq: "0 \<le> x \<Longrightarrow> js_rem x 360 = x - 360 * of_int \<lfloor>x / 360\<rfloor>"
  by (simp add: js_rem_def)

lemma js_rem_range: "0 \<le> x \<Longrightarrow> 0 \<le> js_rem x 360 \<and> js_rem x 360 < 360"
proof -
  assume x: "0 \<le> x"
  have a: "of_int \<lfloor>x / 360\<rfloor> \<le> x / 360" by (rule of_int_floor_le)
  have b: "x / 360 < of_int \<lfloor>x / 360\<rfloor> + 1" by linarith
  have "js_rem x 360 = x - 360 * of_int \<lfloor>x / 360\<rfloor>" using x by (rule js_rem_nonneg_eq)
  with a b show ?thesis by (simp add: field_simps)
qed

lemma js_rem_id: "0 \<le> x \<Longrightarrow> x < 360 \<Longrightarrow> js_rem x 360 = x"
proof -
  assume x: "0 \<le> x" "x < 360"
  then have "\<lfloor>x / 360\<rfloor> = 0" by (simp add: floor_eq_iff)
  with x show ?thesis by (simp add: js_rem_nonneg_eq)
qed


lemma js_rem_neg_range: "x < 0 \<Longrightarrow> -360 < js_rem x 360 \<and> js_rem x 360 \<le> 0"
proof -
  assume x: "x < 0"
  have a: "x / 360 \<le> of_int \<lceil>x / 360\<rceil>" by (rule le_of_int_ceiling)
  have b: "of_int \<lceil>x / 360\<rceil> - 1 < x / 360" by linarith
  have a': "x \<le> 360 * of_int \<lceil>x / 360\<rceil>" using a by linarith
  have b': "360 * of_int \<lceil>x / 360\<rceil> - 360 < x" using b by linarith
  have "js_rem x 360 = x - 360 * of_int \<lceil>x / 360\<rceil>" using x by (simp add: js_rem_def)
  with a' b' show ?thesis by linarith
qed

lemma fl_neg_numeral [simp]: "(numeral w :: int) \<le> 2 ^ 53 \<Longrightarrow> fl (- numeral w) = - numeral w"
  by (simp add: fl_minus)

lemma fl_le_numeral: "(numeral w :: int) \<le> 2 ^ 53 \<Longrightarrow> x \<le> numeral w \<Longrightarrow> fl x \<le> numeral w"
  using fl_mono [of x "numeral w"] by simp

lemma fl_ge_numeral: "(numeral w :: int) \<le> 2 ^ 53 \<Longrightarrow> numeral w \<le> x \<Longrightarrow> numeral w \<le> fl x"
  using fl_mono [of "numeral w" x] by simp

lemma normalizedRotation_range: "0 \<le> normalizedRotation r \<and> normalizedRotation r < 360"
proof (cases "0 \<le> r")
  case True
  then have "0 \<le> js_rem r 360 + 360" using js_rem_range [of r] by simp
  then have "0 \<le> fl (js_rem r 360 + 360)" by (rule fl_nonneg)
  then show ?thesis unfolding normalizedRotation_def by (rule js_rem_range)
next
  case False
  then have "0 \<le> js_rem r 360 + 360" using js_rem_neg_range [of r] by simp
  then have "0 \<le> fl (js_rem r 360 + 360)" by (rule fl_nonneg)
  then show ?thesis unfolding normalizedRotation_def by (rule js_rem_range)
qed

lemma normalizedRotation_int:
  "0 \<le> n \<Longrightarrow> n < 360 \<Longrightarrow> normalizedRotation (of_int n) = of_int n"
proof -
  assume n: "0 \<le> n" "n < 360"
  have a: "js_rem (of_int n) 360 = of_int n" using n by (simp add: js_rem_id)
  have "\<bar>n + 360\<bar> \<le> 2 ^ 53" using n by simp
  then have "fl (of_int (n + 360)) = of_int (n + 360)" by (rule fl_of_int)
  then have b: "fl (real_of_int n + 360) = of_int n + 360" by simp
  have "\<lfloor>(real_of_int n + 360) / 360\<rfloor> = 1" using n by (simp add: floor_eq_iff)
  then have "js_rem (real_of_int n + 360) 360 = of_int n" using n by (simp add: js_rem_nonneg_eq)
  then show ?thesis by (simp add: normalizedRotation_def a b)
qed

lemma normalizedRotation_0 [simp]: "normalizedRotation 0 = 0"
  using normalizedRotation_int [of 0] by simp

lemma normalizedRotation_numeral [simp]:
  "(numeral w :: int) < 360 \<Longrightarrow> normalizedRotation (numeral w) = numeral w"
  using normalizedRotation_int [of "numeral w"] by simp

lemma smod_5_eq_0_iff: "((p::int) smod 5 = 0) = (5 dvd p)"
  by (auto simp add: signed_modulo_int_def sgn_if dvd_eq_mod_eq_0 zmod_zminus1_eq_if)

section \<open>Field-wise effect of the methods\<close>

lemma cancelFrame_fields [simp]:
  "rotation (cancelFrame g) = rotation g" "speed (cancelFrame g) = speed g"
  "lives (cancelFrame g) = lives g" "points (cancelFrame g) = points g"
  "isGameOver (cancelFrame g) = isGameOver g" "lastTiltTime (cancelFrame g) = lastTiltTime g"
  "recentBetas (cancelFrame g) = recentBetas g" "subscribed (cancelFrame g) = subscribed g"
  "messageHTML (cancelFrame g) = messageHTML g" "messageDisplay (cancelFrame g) = messageDisplay g"
  by (simp_all add: cancelFrame_def split: option.split)

lemma cleanup_fields [simp]:
  "rotation (cleanup g) = 0" "speed (cleanup g) = 4"
  "lives (cleanup g) = lives g" "points (cleanup g) = points g"
  "isGameOver (cleanup g)" "lastTiltTime (cleanup g) = lastTiltTime g"
  "recentBetas (cleanup g) = recentBetas g" "\<not> subscribed (cleanup g)"
  "messageHTML (cleanup g) = messageHTML g" "messageDisplay (cleanup g) = messageDisplay g"
  by (simp_all add: cleanup_def)

lemma endGame_fields [simp]:
  "rotation (endGame g) = 0" "speed (endGame g) = 4"
  "lives (endGame g) = lives g" "points (endGame g) = points g"
  "isGameOver (endGame g)" "lastTiltTime (endGame g) = lastTiltTime g"
  "recentBetas (endGame g) = recentBetas g" "\<not> subscribed (endGame g)"
  by (simp_all add: endGame_def Let_def)

lemma gameLoop_fields [simp]:
  "speed (gameLoop rid g) = speed g"
  "lives (gameLoop rid g) = lives g" "points (gameLoop rid g) = points g"
  "isGameOver (gameLoop rid g) = isGameOver g" "lastTiltTime (gameLoop rid g) = lastTiltTime g"
  "recentBetas (gameLoop rid g) = recentBetas g" "subscribed (gameLoop rid g) = subscribed g"
  "messageHTML (gameLoop rid g) = messageHTML g" "messageDisplay (gameLoop rid g) = messageDisplay g"
  by (simp_all add: gameLoop_def Let_def)

lemma gameLoop_rotation:
  "rotation (gameLoop rid g) =
     (if isGameOver g then rotation g else js_rem (fl (rotation g + speed g)) 360)"
  by (simp add: gameLoop_def Let_def)

lemma checkHit_hit:
  "isInTargetZone (rotation g) \<Longrightarrow>
     checkHit g = (if 5 dvd (points g + 1)
        then g\<lparr>points := points g + 1, pointsElement := points g + 1,
               speed := fl (speed g + fl (7 / 10))\<rparr>
        else g\<lparr>points := points g + 1, pointsElement := points g + 1\<rparr>)"
  by (simp add: checkHit_def Let_def smod_5_eq_0_iff)

lemma checkHit_miss:
  "\<not> isInTargetZone (rotation g) \<Longrightarrow>
     checkHit g = (if lives g \<le> 1
        then endGame (g\<lparr>lives := lives g - 1, livesElement := lives g - 1\<rparr>)
        else g\<lparr>lives := lives g - 1, livesElement := lives g - 1\<rparr>)"
  by (simp add: checkHit_def Let_def)

lemma checkHit_fields [simp]:
  "points (checkHit g) = (if isInTargetZone (rotation g) then points g + 1 else points g)"
  "lives (checkHit g) = (if isInTargetZone (rotation g) then lives g else lives g - 1)"
  "recentBetas (checkHit g) = recentBetas g"
  "lastTiltTime (checkHit g) = lastTiltTime g"
  by (cases "isInTargetZone (rotation g)"; simp add: checkHit_hit checkHit_miss)+

lemma pushBeta_eq:
  "pushBeta b bs = (if length bs \<ge> 3 then tl (bs @ [b]) else bs @ [b])"
  by (simp add: pushBeta_def Let_def)

lemma pushBeta_last [simp]: "last (pushBeta b bs) = b"
  by (cases bs) (simp_all add: pushBeta_eq)

lemma pushBeta_nonempty [simp]: "pushBeta b bs \<noteq> []"
  by (cases bs) (auto simp add: pushBeta_eq)

lemma movement_last_hd: "bs \<noteq> [] \<Longrightarrow> movement bs = fl (last bs - hd bs)"
  by (cases bs) (auto simp add: movement_def last_conv_nth Suc_le_eq)

lemma handleMotion_Num:
  "handleMotion (Num b) now1 now2 g =
     (if fl (last (pushBeta b (recentBetas g)) - hd (pushBeta b (recentBetas g))) > 8
         \<and> now1 - lastTiltTime g > 200
      then (checkHit (g\<lparr>recentBetas := pushBeta b (recentBetas g)\<rparr>))\<lparr>lastTiltTime := now2\<rparr>
      else g\<lparr>recentBetas := pushBeta b (recentBetas g)\<rparr>)"
  by (simp add: handleMotion_def Let_def movement_last_hd)

lemma handleMotion_recentBetas:
  "recentBetas (handleMotion beta now1 now2 g) =
     (case beta of Num b \<Rightarrow> pushBeta b (recentBetas g) | _ \<Rightarrow> recentBetas g)"
  by (cases beta) (simp_all add: handleMotion_Num, simp_all add: handleMotion_def)

section \<open>The claims about single calls\<close>

text \<open>
  C2. \<open>checkHit\<close> scores a hit (one more point, lives untouched) exactly when the normalised
  rotation is at least 335 or at most 25, and a miss (one life less, points untouched)
  otherwise. Rotations of exactly 335 and 25 are hits; 334 and 26 are misses.
\<close>

theorem checkHit_target_zone:
  "((points (checkHit g) = points g + 1 \<and> lives (checkHit g) = lives g) =
      (normalizedRotation (rotation g) \<ge> 335 \<or> normalizedRotation (rotation g) \<le> 25))
   \<and> ((lives (checkHit g) = lives g - 1 \<and> points (checkHit g) = points g) =
      (normalizedRotation (rotation g) < 335 \<and> normalizedRotation (rotation g) > 25))
   \<and> 0 \<le> normalizedRotation (rotation g) \<and> normalizedRotation (rotation g) < 360
   \<and> points (checkHit (g\<lparr>rotation := 335\<rparr>)) = points g + 1
   \<and> lives (checkHit (g\<lparr>rotation := 335\<rparr>)) = lives g
   \<and> points (checkHit (g\<lparr>rotation := 25\<rparr>)) = points g + 1
   \<and> lives (checkHit (g\<lparr>rotation := 25\<rparr>)) = lives g
   \<and> points (checkHit (g\<lparr>rotation := 334\<rparr>)) = points g
   \<and> lives (checkHit (g\<lparr>rotation := 334\<rparr>)) = lives g - 1
   \<and> points (checkHit (g\<lparr>rotation := 26\<rparr>)) = points g
   \<and> lives (checkHit (g\<lparr>rotation := 26\<rparr>)) = lives g - 1"
proof -
  have z: "isInTargetZone 335" "isInTargetZone 25" "\<not> isInTargetZone 334" "\<not> isInTargetZone 26"
    by (simp_all add: isInTargetZone_def)
  have a: "(points (checkHit g) = points g + 1 \<and> lives (checkHit g) = lives g) =
      (normalizedRotation (rotation g) \<ge> 335 \<or> normalizedRotation (rotation g) \<le> 25)"
    by (simp add: isInTargetZone_def)
  have b: "(lives (checkHit g) = lives g - 1 \<and> points (checkHit g) = points g) =
      (normalizedRotation (rotation g) < 335 \<and> normalizedRotation (rotation g) > 25)"
    by (auto simp add: isInTargetZone_def)
  show ?thesis using a b normalizedRotation_range [of "rotation g"] by (simp add: z)
qed

theorem checkHit_target_zone_witness:
  "points (checkHit (SunkistGame\<lparr>rotation := 335\<rparr>)) = 1
   \<and> points (checkHit (SunkistGame\<lparr>rotation := 25\<rparr>)) = 1
   \<and> lives (checkHit (SunkistGame\<lparr>rotation := 334\<rparr>)) = 2
   \<and> lives (checkHit (SunkistGame\<lparr>rotation := 26\<rparr>)) = 2"
  using checkHit_target_zone [of SunkistGame]
  by (simp add: SunkistGame_def initializeGame_def showWelcomeMessage_def)

text \<open>
  C7. \<open>endGame\<close> chooses the message by \<open>points > 12\<close>: with 12 points it shows the
  message of the lose branch, with 13 points that of the win branch.
\<close>

theorem endGame_message:
  "messageHTML (endGame g) = (if points g > 12 then WinMessage else LoseMessage)
   \<and> messageDisplay (endGame g)
   \<and> messageHTML (endGame (g\<lparr>points := 12\<rparr>)) = LoseMessage
   \<and> messageHTML (endGame (g\<lparr>points := 13\<rparr>)) = WinMessage"
  by (simp add: endGame_def Let_def)

text \<open>
  C9. \<open>handleMotion\<close> returns the game unchanged for a sample whose \<open>beta\<close> is \<open>null\<close> or
  \<open>undefined\<close>; a \<open>beta\<close> of 0 is accepted: it becomes the newest entry of the window.
\<close>

theorem handleMotion_null_beta:
  "handleMotion Null now1 now2 g = g
   \<and> handleMotion Undefined now1 now2 g = g
   \<and> recentBetas (handleMotion (Num 0) now1 now2 g) =
       (if length (recentBetas g) \<ge> 3 then tl (recentBetas g @ [0]) else recentBetas g @ [0])
   \<and> last (recentBetas (handleMotion (Num 0) now1 now2 g)) = 0"
  by (simp add: handleMotion_recentBetas pushBeta_eq [symmetric]) (simp add: handleMotion_def)

text \<open>
  C10. The detector looks at the signed difference newest minus oldest. Whenever it is at
  most 8 (so for every tilt in the opposite direction, whatever its size) \<open>handleMotion\<close>
  only updates the window: no hit evaluation, no point, no life lost, no new gesture stamp.
  A hit evaluation therefore needs a difference strictly above 8.
\<close>

theorem handleMotion_direction_sensitive:
  "(last (pushBeta b (recentBetas g)) - hd (pushBeta b (recentBetas g)) \<le> 8 \<longrightarrow>
      handleMotion (Num b) now1 now2 g = g\<lparr>recentBetas := pushBeta b (recentBetas g)\<rparr>)
   \<and> (points (handleMotion (Num b) now1 now2 g) \<noteq> points g
        \<or> lives (handleMotion (Num b) now1 now2 g) \<noteq> lives g \<longrightarrow>
      last (pushBeta b (recentBetas g)) - hd (pushBeta b (recentBetas g)) > 8)"
proof -
  let ?d = "last (pushBeta b (recentBetas g)) - hd (pushBeta b (recentBetas g))"
  have key: "\<not> 8 < fl ?d" if "?d \<le> 8"
  proof -
    have "fl ?d \<le> 8" using that by (intro fl_le_numeral) simp_all
    then show ?thesis by simp
  qed
  have a: "?d \<le> 8 \<longrightarrow>
      handleMotion (Num b) now1 now2 g = g\<lparr>recentBetas := pushBeta b (recentBetas g)\<rparr>"
    using key by (simp add: handleMotion_Num)
  have b: "points (handleMotion (Num b) now1 now2 g) \<noteq> points g
        \<or> lives (handleMotion (Num b) now1 now2 g) \<noteq> lives g \<longrightarrow> ?d > 8"
    using key by (cases "?d \<le> 8") (simp_all add: handleMotion_Num)
  from a b show ?thesis by blast
qed

theorem handleMotion_direction_sensitive_witness:
  "last (pushBeta 0 [30, 15]) - hd (pushBeta 0 [30, 15]) = - 30
   \<and> handleMotion (Num 0) 1000 1001 (SunkistGame\<lparr>recentBetas := [30, 15]\<rparr>)
     = SunkistGame\<lparr>recentBetas := [30, 15, 0]\<rparr>
   \<and> last (pushBeta 30 [0, 15]) - hd (pushBeta 30 [0, 15]) = 30
   \<and> points (handleMotion (Num 30) 1000 1001 (SunkistGame\<lparr>recentBetas := [0, 15]\<rparr>)) = 1"
  using handleMotion_direction_sensitive [of 0 "SunkistGame\<lparr>recentBetas := [30, 15]\<rparr>" 1000 1001]
    handleMotion_direction_sensitive [of 30 "SunkistGame\<lparr>recentBetas := [0, 15]\<rparr>" 1000 1001]
  by (simp add: pushBeta_eq handleMotion_Num SunkistGame_def initializeGame_def showWelcomeMessage_def
      isInTargetZone_def)

section \<open>The gesture gate and the sliding window\<close>

lemma fl_gt_8: "8 < fl d \<Longrightarrow> 8 < d"
proof (rule ccontr)
  assume "8 < fl d" and "\<not> 8 < d"
  then have "d \<le> 8" by simp
  then have "fl d \<le> 8" by (intro fl_le_numeral) simp_all
  with \<open>8 < fl d\<close> show False by simp
qed

lemma handleMotion_registered:
  "registered g (handleMotion beta now1 now2 g) =
     (beta \<noteq> Null \<and> beta \<noteq> Undefined
      \<and> movement (recentBetas (handleMotion beta now1 now2 g)) > 8
      \<and> now1 - lastTiltTime g > 200)"
proof (cases beta)
  case (Num b)
  show ?thesis unfolding Num registered_def
    by (simp add: handleMotion_recentBetas movement_last_hd) (simp add: handleMotion_Num)
qed (simp_all add: handleMotion_def registered_def)

lemma handleMotion_lastTiltTime:
  "lastTiltTime (handleMotion beta now1 now2 g) =
     (if registered g (handleMotion beta now1 now2 g) then now2 else lastTiltTime g)"
proof (cases beta)
  case (Num b)
  show ?thesis unfolding Num registered_def by (simp add: handleMotion_Num)
qed (simp_all add: handleMotion_def registered_def)

lemma play_lastTiltTime:
  "lastTiltTime (play cs g) = last (lastTiltTime g # map snd (accepted cs g))"
proof (induction cs arbitrary: g)
  case Nil
  then show ?case by simp
next
  case (Cons c cs)
  show ?case
  proof (cases c)
    case (Tick rid)
    then show ?thesis using Cons [of "gameLoop rid g"] by simp
  next
    case (Sample beta now1 now2)
    then show ?thesis
      using Cons [of "handleMotion beta now1 now2 g"] handleMotion_lastTiltTime [of beta now1 now2 g]
      by simp
  qed
qed

lemma play_spaced: "spaced (lastTiltTime g) (accepted cs g)"
proof (induction cs arbitrary: g)
  case Nil
  then show ?case by simp
next
  case (Cons c cs)
  show ?case
  proof (cases c)
    case (Tick rid)
    then show ?thesis using Cons [of "gameLoop rid g"] by simp
  next
    case (Sample beta now1 now2)
    let ?h = "handleMotion beta now1 now2 g"
    note ih = Cons [of ?h]
    show ?thesis
    proof (cases "registered g ?h")
      case True
      then have st: "lastTiltTime ?h = now2" by (simp add: handleMotion_lastTiltTime)
      from True have gate: "now1 - lastTiltTime g > 200" by (simp only: handleMotion_registered)
      from ih st gate True show ?thesis by (simp add: Sample)
    next
      case False
      then have "lastTiltTime ?h = lastTiltTime g" by (simp add: handleMotion_lastTiltTime)
      with ih False show ?thesis by (simp add: Sample)
    qed
  qed
qed

lemma accepted_after_stamp:
  "sorted (clock cs) \<Longrightarrow> \<forall>a \<in> set (accepted cs g). fst a - lastTiltTime g > 200"
proof (induction cs arbitrary: g)
  case Nil
  then show ?case by simp
next
  case (Cons c cs)
  show ?case
  proof (cases c)
    case (Tick rid)
    then show ?thesis using Cons.IH [of "gameLoop rid g"] Cons.prems by simp
  next
    case (Sample beta now1 now2)
    let ?h = "handleMotion beta now1 now2 g"
    from Cons.prems have s: "sorted (clock cs)" and le: "now1 \<le> now2" by (simp_all add: Sample)
    note ih = Cons.IH [OF s, of ?h]
    show ?thesis
    proof (cases "registered g ?h")
      case True
      then have st: "lastTiltTime ?h = now2" by (simp add: handleMotion_lastTiltTime)
      from True have gate: "now1 - lastTiltTime g > 200" by (simp only: handleMotion_registered)
      from ih st le gate have "\<forall>a \<in> set (accepted cs ?h). fst a - lastTiltTime g > 200" by fastforce
      with True gate show ?thesis by (simp add: Sample)
    next
      case False
      then have "lastTiltTime ?h = lastTiltTime g" by (simp add: handleMotion_lastTiltTime)
      with ih False show ?thesis by (simp add: Sample)
    qed
  qed
qed

lemma accepted_apart:
  "sorted (clock cs) \<Longrightarrow> sorted_wrt (\<lambda>a b. fst b - fst a > 200) (accepted cs g)"
proof (induction cs arbitrary: g)
  case Nil
  then show ?case by simp
next
  case (Cons c cs)
  show ?case
  proof (cases c)
    case (Tick rid)
    then show ?thesis using Cons.IH [of "gameLoop rid g"] Cons.prems by simp
  next
    case (Sample beta now1 now2)
    let ?h = "handleMotion beta now1 now2 g"
    from Cons.prems have s: "sorted (clock cs)" and le: "now1 \<le> now2" by (simp_all add: Sample)
    note ih = Cons.IH [OF s, of ?h]
    show ?thesis
    proof (cases "registered g ?h")
      case True
      then have st: "lastTiltTime ?h = now2" by (simp add: handleMotion_lastTiltTime)
      from accepted_after_stamp [OF s, of ?h] st le
      have "\<forall>a \<in> set (accepted cs ?h). fst a - now1 > 200" by fastforce
      with ih True show ?thesis by (simp add: Sample)
    next
      case False
      with ih show ?thesis by (simp add: Sample)
    qed
  qed
qed

text \<open>
  C1. A call of \<open>handleMotion\<close> evaluates a hit (changes \<open>points\<close> or \<open>lives\<close>) only when the
  window movement, newest minus oldest sample, exceeds 8 and at least 200 ms have passed
  since the last accepted gesture; the code's test is the strict \<open>now - lastTiltTime > 200\<close>
  on the rounded difference. Only an accepted gesture changes the stamp: over every
  sequence of samples and ticks \<open>lastTiltTime\<close> is the stamp of the last accepted gesture,
  every accepted gesture was checked more than 200 ms after the stamp before it, and when
  the clock does not run backwards any two accepted gestures are more than 200 ms apart,
  so two gestures 150 ms apart never both register.
\<close>

theorem handleMotion_gesture_gate:
  "((points (handleMotion beta now1 now2 g) \<noteq> points g
       \<or> lives (handleMotion beta now1 now2 g) \<noteq> lives g) =
      (beta \<noteq> Null \<and> beta \<noteq> Undefined
       \<and> movement (recentBetas (handleMotion beta now1 now2 g)) > 8
       \<and> now1 - lastTiltTime g > 200))
   \<and> (points (handleMotion beta now1 now2 g) \<noteq> points g
         \<or> lives (handleMotion beta now1 now2 g) \<noteq> lives g \<longrightarrow>
       last (recentBetas (handleMotion beta now1 now2 g))
           - hd (recentBetas (handleMotion beta now1 now2 g)) > 8
       \<and> now1 - lastTiltTime g \<ge> 200
       \<and> lastTiltTime (handleMotion beta now1 now2 g) = now2)
   \<and> (points (handleMotion beta now1 now2 g) = points g
         \<and> lives (handleMotion beta now1 now2 g) = lives g \<longrightarrow>
       lastTiltTime (handleMotion beta now1 now2 g) = lastTiltTime g)
   \<and> lastTiltTime (gameLoop rid g) = lastTiltTime g
   \<and> lastTiltTime (play cs g) = last (lastTiltTime g # map snd (accepted cs g))
   \<and> spaced (lastTiltTime g) (accepted cs g)
   \<and> (sorted (clock cs) \<longrightarrow> sorted_wrt (\<lambda>a b. fst b - fst a > 200) (accepted cs g))
   \<and> (now1 \<le> now2 \<and> now1' - now1 \<le> 200
       \<and> (points (handleMotion beta now1 now2 g) \<noteq> points g
            \<or> lives (handleMotion beta now1 now2 g) \<noteq> lives g) \<longrightarrow>
       points (handleMotion beta' now1' now2' (handleMotion beta now1 now2 g))
          = points (handleMotion beta now1 now2 g)
       \<and> lives (handleMotion beta' now1' now2' (handleMotion beta now1 now2 g))
          = lives (handleMotion beta now1 now2 g))"
proof -
  let ?h = "handleMotion beta now1 now2 g"
  let ?reg = "points ?h \<noteq> points g \<or> lives ?h \<noteq> lives g"
  note iff = handleMotion_registered [of g beta now1 now2, unfolded registered_def]
  have mv: "last (recentBetas ?h) - hd (recentBetas ?h) > 8" if ?reg
  proof -
    from that iff have m: "movement (recentBetas ?h) > 8" and b: "beta \<noteq> Null" "beta \<noteq> Undefined"
      by simp_all
    from b obtain x where "beta = Num x" by (cases beta) simp_all
    then have "recentBetas ?h \<noteq> []" by (simp add: handleMotion_recentBetas)
    then have "movement (recentBetas ?h) = fl (last (recentBetas ?h) - hd (recentBetas ?h))"
      by (rule movement_last_hd)
    with m have "8 < fl (last (recentBetas ?h) - hd (recentBetas ?h))" by simp
    then show ?thesis by (rule fl_gt_8)
  qed
  have gate: "now1 - lastTiltTime g \<ge> 200" if ?reg using that iff by simp
  have stamp: "lastTiltTime ?h = now2" if ?reg
    using that by (simp add: handleMotion_lastTiltTime registered_def)
  have keep: "lastTiltTime ?h = lastTiltTime g" if "points ?h = points g \<and> lives ?h = lives g"
    using that by (simp add: handleMotion_lastTiltTime registered_def)
  have tick: "lastTiltTime (gameLoop rid g) = lastTiltTime g" by simp
  have second: "points (handleMotion beta' now1' now2' ?h) = points ?h
       \<and> lives (handleMotion beta' now1' now2' ?h) = lives ?h"
    if "now1 \<le> now2 \<and> now1' - now1 \<le> 200 \<and> ?reg"
  proof -
    from that stamp have "\<not> now1' - lastTiltTime ?h > 200" by simp
    then have "\<not> registered ?h (handleMotion beta' now1' now2' ?h)"
      by (simp only: handleMotion_registered) simp
    then have "\<not> (points (handleMotion beta' now1' now2' ?h) \<noteq> points ?h
        \<or> lives (handleMotion beta' now1' now2' ?h) \<noteq> lives ?h)"
      unfolding registered_def .
    then show ?thesis by simp
  qed
  from iff mv gate stamp keep tick second play_lastTiltTime [of cs g] play_spaced [of g cs]
    accepted_apart [of cs g]
  show ?thesis by blast
qed

theorem handleMotion_gesture_gate_witness:
  "points (handleMotion (Num 10) 1000 1001 (SunkistGame\<lparr>recentBetas := [0]\<rparr>)) = 1
   \<and> last (recentBetas (handleMotion (Num 10) 1000 1001 (SunkistGame\<lparr>recentBetas := [0]\<rparr>)))
       - hd (recentBetas (handleMotion (Num 10) 1000 1001 (SunkistGame\<lparr>recentBetas := [0]\<rparr>))) = 10
   \<and> lastTiltTime (handleMotion (Num 10) 1000 1001 (SunkistGame\<lparr>recentBetas := [0]\<rparr>)) = 1001
   \<and> points (handleMotion (Num 20) 1150 1151
        (handleMotion (Num 10) 1000 1001 (SunkistGame\<lparr>recentBetas := [0]\<rparr>))) = 1
   \<and> lives (handleMotion (Num 20) 1150 1151
        (handleMotion (Num 10) 1000 1001 (SunkistGame\<lparr>recentBetas := [0]\<rparr>))) = 3
   \<and> lastTiltTime (handleMotion (Num 20) 1150 1151
        (handleMotion (Num 10) 1000 1001 (SunkistGame\<lparr>recentBetas := [0]\<rparr>))) = 1001
   \<and> sorted (clock [Sample (Num 0) 900 900, Sample (Num 10) 1000 1001, Tick 2,
        Sample (Num 20) 1150 1151, Sample Null 1200 1200, Sample (Num 30) 1300 1302])
   \<and> accepted [Sample (Num 0) 900 900, Sample (Num 10) 1000 1001, Tick 2,
        Sample (Num 20) 1150 1151, Sample Null 1200 1200, Sample (Num 30) 1300 1302] SunkistGame
      = [(1000, 1001), (1300, 1302)]
   \<and> lastTiltTime (play [Sample (Num 0) 900 900, Sample (Num 10) 1000 1001, Tick 2,
        Sample (Num 20) 1150 1151, Sample Null 1200 1200, Sample (Num 30) 1300 1302] SunkistGame)
      = 1302"
proof -
  have a: "accepted [Sample (Num 0) 900 900, Sample (Num 10) 1000 1001, Tick 2,
        Sample (Num 20) 1150 1151, Sample Null 1200 1200, Sample (Num 30) 1300 1302] SunkistGame
      = [(1000, 1001), (1300, 1302)]"
    by (simp add: handleMotion_registered handleMotion_recentBetas handleMotion_lastTiltTime
        pushBeta_eq movement_def SunkistGame_def initializeGame_def showWelcomeMessage_def)
  have s: "sorted (clock [Sample (Num 0) 900 900, Sample (Num 10) 1000 1001, Tick 2,
        Sample (Num 20) 1150 1151, Sample Null 1200 1200, Sample (Num 30) 1300 1302])"
    by simp
  have l: "last (lastTiltTime SunkistGame # map snd [(1000, 1001), (1300, 1302)]) = 1302"
    by simp
  from handleMotion_gesture_gate [of "Num 10" 1000 1001 "SunkistGame\<lparr>recentBetas := [0]\<rparr>" 2 "[]"
      1150 "Num 20" 1151]
  have single: "points (handleMotion (Num 10) 1000 1001 (SunkistGame\<lparr>recentBetas := [0]\<rparr>)) = 1
   \<and> last (recentBetas (handleMotion (Num 10) 1000 1001 (SunkistGame\<lparr>recentBetas := [0]\<rparr>)))
       - hd (recentBetas (handleMotion (Num 10) 1000 1001 (SunkistGame\<lparr>recentBetas := [0]\<rparr>))) = 10
   \<and> lastTiltTime (handleMotion (Num 10) 1000 1001 (SunkistGame\<lparr>recentBetas := [0]\<rparr>)) = 1001
   \<and> points (handleMotion (Num 20) 1150 1151
        (handleMotion (Num 10) 1000 1001 (SunkistGame\<lparr>recentBetas := [0]\<rparr>))) = 1
   \<and> lives (handleMotion (Num 20) 1150 1151
        (handleMotion (Num 10) 1000 1001 (SunkistGame\<lparr>recentBetas := [0]\<rparr>))) = 3"
    by (simp add: pushBeta_eq handleMotion_Num SunkistGame_def initializeGame_def
        showWelcomeMessage_def isInTargetZone_def)
  from handleMotion_gesture_gate [of "Num 20" 1150 1151
      "handleMotion (Num 10) 1000 1001 (SunkistGame\<lparr>recentBetas := [0]\<rparr>)" 2 "[]" 0 Null 0] single
  have kept: "lastTiltTime (handleMotion (Num 20) 1150 1151
        (handleMotion (Num 10) 1000 1001 (SunkistGame\<lparr>recentBetas := [0]\<rparr>))) = 1001"
    by simp
  from handleMotion_gesture_gate [of Null 0 0 SunkistGame 2
      "[Sample (Num 0) 900 900, Sample (Num 10) 1000 1001, Tick 2,
        Sample (Num 20) 1150 1151, Sample Null 1200 1200, Sample (Num 30) 1300 1302]" 0 Null 0]
  have "lastTiltTime (play [Sample (Num 0) 900 900, Sample (Num 10) 1000 1001, Tick 2,
        Sample (Num 20) 1150 1151, Sample Null 1200 1200, Sample (Num 30) 1300 1302] SunkistGame)
      = last (lastTiltTime SunkistGame # map snd (accepted [Sample (Num 0) 900 900,
          Sample (Num 10) 1000 1001, Tick 2, Sample (Num 20) 1150 1151, Sample Null 1200 1200,
          Sample (Num 30) 1300 1302] SunkistGame))"
    by blast
  then have "lastTiltTime (play [Sample (Num 0) 900 900, Sample (Num 10) 1000 1001, Tick 2,
        Sample (Num 20) 1150 1151, Sample Null 1200 1200, Sample (Num 30) 1300 1302] SunkistGame)
      = 1302"
    unfolding a l .
  with a s single kept show ?thesis by blast
qed

lemma pushBeta_drop:
  "length w \<le> 3 \<Longrightarrow> drop (length (pushBeta b w @ ys) - 3) (pushBeta b w @ ys)
      = drop (length (w @ b # ys) - 3) (w @ b # ys)"
proof (cases "length w = 3")
  case True
  then obtain x w' where w: "w = x # w'" "length w' = 2" by (cases w) auto
  then show ?thesis by (simp add: pushBeta_eq)
next
  case False
  assume "length w \<le> 3"
  with False show ?thesis by (simp add: pushBeta_eq)
qed

lemma pushBeta_length: "length w \<le> 3 \<Longrightarrow> length (pushBeta b w) \<le> 3"
  by (cases w) (auto simp add: pushBeta_eq)

lemma play_recentBetas:
  "length (recentBetas g) \<le> 3 \<Longrightarrow>
     recentBetas (play cs g)
       = drop (length (recentBetas g @ acceptedBetas cs) - 3) (recentBetas g @ acceptedBetas cs)"
proof (induction cs arbitrary: g)
  case Nil
  then show ?case by simp
next
  case (Cons c cs)
  show ?case
  proof (cases c)
    case (Tick rid)
    with Cons show ?thesis by simp
  next
    case (Sample beta now1 now2)
    show ?thesis
    proof (cases beta)
      case (Num b)
      have len: "length (recentBetas (handleMotion (Num b) now1 now2 g)) \<le> 3"
        using Cons.prems by (simp add: handleMotion_recentBetas pushBeta_length)
      show ?thesis
        using Cons.IH [OF len] pushBeta_drop [OF Cons.prems, of b "acceptedBetas cs"]
        by (simp add: Sample Num handleMotion_recentBetas)
    next
      case Null
      with Cons Sample show ?thesis by (simp add: handleMotion_def)
    next
      case Undefined
      with Cons Sample show ?thesis by (simp add: handleMotion_def)
    qed
  qed
qed

text \<open>
  C6. Whatever calls an instance receives, its window holds at most 3 entries, and it
  holds exactly the last 3 (or all, if fewer) of the samples received so far, in arrival
  order: on a new instance, and for any starting window of at most 3 entries.
\<close>

theorem recentBetas_sliding_window:
  "recentBetas (play cs SunkistGame)
      = drop (length (acceptedBetas cs) - 3) (acceptedBetas cs)
   \<and> length (recentBetas (play cs SunkistGame)) \<le> 3
   \<and> (length (recentBetas g) \<le> 3 \<longrightarrow>
        recentBetas (play cs g)
          = drop (length (recentBetas g @ acceptedBetas cs) - 3) (recentBetas g @ acceptedBetas cs)
        \<and> length (recentBetas (play cs g)) \<le> 3)"
proof -
  have l: "length (drop (length xs - 3) xs) \<le> 3" for xs :: "real list"
    by simp
  have e: "recentBetas SunkistGame = []"
    by (simp add: SunkistGame_def initializeGame_def showWelcomeMessage_def)
  then have "length (recentBetas SunkistGame) \<le> 3" by simp
  from play_recentBetas [OF this, of cs]
  have a: "recentBetas (play cs SunkistGame)
      = drop (length (acceptedBetas cs) - 3) (acceptedBetas cs)" by (simp add: e)
  have a': "length (recentBetas (play cs SunkistGame)) \<le> 3"
    unfolding a by (rule l)
  have b: "recentBetas (play cs g)
          = drop (length (recentBetas g @ acceptedBetas cs) - 3) (recentBetas g @ acceptedBetas cs)"
    if "length (recentBetas g) \<le> 3"
    using that by (rule play_recentBetas)
  have b': "length (recentBetas (play cs g)) \<le> 3" if "length (recentBetas g) \<le> 3"
    unfolding b [OF that] by (rule l)
  from a a' b b' show ?thesis by blast
qed

theorem recentBetas_sliding_window_witness:
  "recentBetas (play [Sample (Num 1) 10 10, Sample Null 20 20, Sample (Num 2) 30 30,
        Tick 5, Sample (Num 3) 40 40, Sample (Num 0) 50 50, Sample (Num 12) 60 60] SunkistGame)
     = [3, 0, 12]
   \<and> length [5, 6 :: real] \<le> 3
   \<and> recentBetas (play [Sample (Num 1) 10 10, Sample (Num 2) 30 30] (SunkistGame\<lparr>recentBetas := [5, 6]\<rparr>))
     = [6, 1, 2]"
  using recentBetas_sliding_window [of "[Sample (Num 1) 10 10, Sample Null 20 20, Sample (Num 2) 30 30,
        Tick 5, Sample (Num 3) 40 40, Sample (Num 0) 50 50, Sample (Num 12) 60 60]" SunkistGame]
    recentBetas_sliding_window [of "[Sample (Num 1) 10 10, Sample (Num 2) 30 30]" "SunkistGame\<lparr>recentBetas := [5, 6]\<rparr>"]
  by simp

section \<open>Every reachable page is tidy\<close>

lemma SunkistGame_fields [simp]:
  "rotation SunkistGame = 0" "speed SunkistGame = 4" "lives SunkistGame = 3"
  "points SunkistGame = 0" "\<not> isGameOver SunkistGame" "\<not> subscribed SunkistGame"
  "recentBetas SunkistGame = []" "lastTiltTime SunkistGame = 0"
  by (simp_all add: SunkistGame_def initializeGame_def showWelcomeMessage_def)

lemma start_fields [simp]:
  "rotation (start rid g) = 4" "speed (start rid g) = 4" "lives (start rid g) = 3"
  "points (start rid g) = 0" "\<not> isGameOver (start rid g)" "subscribed (start rid g)"
  "recentBetas (start rid g) = recentBetas g" "lastTiltTime (start rid g) = lastTiltTime g"
  by (simp_all add: start_def gameLoop_rotation js_rem_id)

lemma checkHit_more_fields:
  "rotation (checkHit g) = (if \<not> isInTargetZone (rotation g) \<and> lives g \<le> 1 then 0 else rotation g)"
  "speed (checkHit g) =
     (if isInTargetZone (rotation g)
      then (if 5 dvd (points g + 1) then fl (speed g + fl (7 / 10)) else speed g)
      else if lives g \<le> 1 then 4 else speed g)"
  "isGameOver (checkHit g) = (isGameOver g \<or> (\<not> isInTargetZone (rotation g) \<and> lives g \<le> 1))"
  "subscribed (checkHit g) = (subscribed g \<and> (isInTargetZone (rotation g) \<or> 1 < lives g))"
  by (cases "isInTargetZone (rotation g)"; simp add: checkHit_hit checkHit_miss; fail)+

lemma sound_SunkistGame: "sound SunkistGame"
  by (simp add: sound_def)

lemma sound_start: "sound (start rid g)"
  by (simp add: sound_def)

lemma sound_cleanup: "sound g \<Longrightarrow> sound (cleanup g)"
  by (simp add: sound_def)

lemma sound_gameLoop: "sound g \<Longrightarrow> sound (gameLoop rid g)"
proof -
  assume s: "sound g"
  then have "0 \<le> rotation g + speed g" by (simp add: sound_def)
  then have "0 \<le> fl (rotation g + speed g)" by (rule fl_nonneg)
  from js_rem_range [OF this] s show ?thesis by (simp add: sound_def gameLoop_rotation)
qed

lemma speed_step_ge_4: "4 \<le> s \<Longrightarrow> 4 \<le> fl (s + fl (7 / 10))"
proof -
  assume "4 \<le> s"
  moreover have "0 \<le> fl (7 / 10)" by (rule fl_nonneg) simp
  ultimately have "4 \<le> s + fl (7 / 10)" by simp
  then show ?thesis by (intro fl_ge_numeral) simp_all
qed

lemma sound_checkHit: "sound g \<Longrightarrow> subscribed g \<Longrightarrow> sound (checkHit g)"
  by (simp add: sound_def checkHit_more_fields speed_step_ge_4)

lemma sound_handleMotion: "sound g \<Longrightarrow> subscribed g \<Longrightarrow> sound (handleMotion beta now1 now2 g)"
proof -
  assume s: "sound g" and l: "subscribed g"
  have w: "sound (g\<lparr>recentBetas := w\<rparr>)" "subscribed (g\<lparr>recentBetas := w\<rparr>)" for w
    using s l by (simp_all add: sound_def)
  have t: "sound h \<Longrightarrow> sound (h\<lparr>lastTiltTime := t\<rparr>)" for h t
    by (simp add: sound_def)
  show ?thesis
  proof (cases beta)
    case (Num b)
    show ?thesis unfolding Num handleMotion_Num
      by (auto intro!: t sound_checkHit w)
  qed (simp_all add: handleMotion_def s)
qed

lemma sound_deliverOrientation: "sound g \<Longrightarrow> sound (deliverOrientation beta now1 now2 g)"
  by (simp add: deliverOrientation_def sound_handleMotion)

lemma sound_deliverFrame: "sound g \<Longrightarrow> sound (deliverFrame rid g)"
proof (cases "scheduledFrames g")
  case Nil
  assume "sound g"
  with Nil show ?thesis by (simp add: deliverFrame_def)
next
  case (Cons f fs)
  assume "sound g"
  then have "sound (g\<lparr>scheduledFrames := fs\<rparr>)" by (simp add: sound_def)
  then show ?thesis by (simp add: deliverFrame_def Cons sound_gameLoop)
qed

lemma deliverOrientation_unsubscribed:
  "\<not> subscribed g \<Longrightarrow> \<not> subscribed (deliverOrientation beta now1 now2 g)"
  by (simp add: deliverOrientation_def)

lemma deliverFrame_subscribed [simp]: "subscribed (deliverFrame rid g) = subscribed g"
  by (cases "scheduledFrames g") (simp_all add: deliverFrame_def)

lemma tidy_onInstances:
  "(\<And>g. sound g \<Longrightarrow> sound (f g)) \<Longrightarrow> (\<And>g. \<not> subscribed g \<Longrightarrow> \<not> subscribed (f g)) \<Longrightarrow>
     tidy w \<Longrightarrow> tidy (onInstances f w)"
  by (cases "currentGame w") (auto simp add: tidy_def onInstances_def instances_def list_all_iff)

lemma tidy_pageLoad: "tidy (pageLoad emptyPage)"
  by (simp add: tidy_def pageLoad_def emptyPage_def instances_def sound_SunkistGame)

lemma tidy_startGame: "tidy w \<Longrightarrow> tidy (startGame granted rid w)"
  by (cases "currentGame w") (auto simp add: tidy_def startGame_def instances_def sound_start)

lemma tidy_restartGame: "tidy w \<Longrightarrow> tidy (restartGame w)"
  by (cases "currentGame w")
     (auto simp add: tidy_def restartGame_def instances_def sound_SunkistGame sound_cleanup)

lemma tidy_step: "tidy w \<Longrightarrow> tidy (step e w)"
proof (cases e)
  case (Tap granted rid)
  assume "tidy w"
  then show ?thesis unfolding Tap step.simps by (rule tidy_startGame)
next
  case PlayAgain
  assume "tidy w"
  then show ?thesis unfolding PlayAgain step.simps by (rule tidy_restartGame)
next
  case (Orientation beta now1 now2)
  assume "tidy w"
  then show ?thesis unfolding Orientation step.simps
    by (intro tidy_onInstances sound_deliverOrientation deliverOrientation_unsubscribed)
next
  case (AnimationFrame rid)
  assume "tidy w"
  then show ?thesis unfolding AnimationFrame step.simps
    by (intro tidy_onInstances sound_deliverFrame) simp_all
qed

lemma tidy_run: "tidy w \<Longrightarrow> tidy (run evs w)"
  by (induction evs arbitrary: w) (simp_all add: tidy_step)

lemma tidy_reachable: "tidy (run evs (pageLoad emptyPage))"
  by (rule tidy_run) (rule tidy_pageLoad)

section \<open>A run of calls on one instance\<close>

lemma handleMotion_running:
  assumes "\<not> isGameOver (handleMotion beta now1 now2 g)"
  shows "\<not> isGameOver g"
    and "rotation (handleMotion beta now1 now2 g) = rotation g"
    and "points g \<le> points (handleMotion beta now1 now2 g)"
    and "speed (handleMotion beta now1 now2 g) =
           (if points (handleMotion beta now1 now2 g) = points g + 1 \<and> 5 dvd (points g + 1)
            then fl (speed g + fl (7 / 10)) else speed g)"
    and "points (handleMotion beta now1 now2 g) = points g
           \<or> points (handleMotion beta now1 now2 g) = points g + 1"
proof -
  have "\<not> isGameOver g \<and> rotation (handleMotion beta now1 now2 g) = rotation g
    \<and> points g \<le> points (handleMotion beta now1 now2 g)
    \<and> speed (handleMotion beta now1 now2 g) =
           (if points (handleMotion beta now1 now2 g) = points g + 1 \<and> 5 dvd (points g + 1)
            then fl (speed g + fl (7 / 10)) else speed g)
    \<and> (points (handleMotion beta now1 now2 g) = points g
           \<or> points (handleMotion beta now1 now2 g) = points g + 1)"
  proof (cases beta)
    case (Num b)
    show ?thesis using assms unfolding Num handleMotion_Num
      by (auto simp add: checkHit_more_fields split: if_splits)
  qed (use assms in \<open>simp_all add: handleMotion_def\<close>)
  then show "\<not> isGameOver g"
    and "rotation (handleMotion beta now1 now2 g) = rotation g"
    and "points g \<le> points (handleMotion beta now1 now2 g)"
    and "speed (handleMotion beta now1 now2 g) =
           (if points (handleMotion beta now1 now2 g) = points g + 1 \<and> 5 dvd (points g + 1)
            then fl (speed g + fl (7 / 10)) else speed g)"
    and "points (handleMotion beta now1 now2 g) = points g
           \<or> points (handleMotion beta now1 now2 g) = points g + 1"
    by simp_all
qed

lemma speed_step_mono: "fl s = s \<Longrightarrow> s \<le> fl (s + fl (7 / 10))"
proof -
  assume d: "fl s = s"
  have "0 \<le> fl (7 / 10)" by (rule fl_nonneg) simp
  then have "s \<le> s + fl (7 / 10)" by simp
  then have "fl s \<le> fl (s + fl (7 / 10))" by (rule fl_mono)
  with d show ?thesis by simp
qed

lemma handleMotion_speed_double:
  "fl (speed g) = speed g \<Longrightarrow> fl (speed (handleMotion beta now1 now2 g)) = speed (handleMotion beta now1 now2 g)"
proof (cases beta)
  case (Num b)
  assume "fl (speed g) = speed g"
  then show ?thesis unfolding Num handleMotion_Num by (simp add: checkHit_more_fields)
qed (simp_all add: handleMotion_def)


lemma play_running: "\<not> isGameOver (play cs g) \<Longrightarrow> \<not> isGameOver g"
proof (induction cs arbitrary: g)
  case Nil
  then show ?case by simp
next
  case (Cons c cs)
  show ?case
  proof (cases c)
    case (Tick rid)
    with Cons.prems have "\<not> isGameOver (play cs (gameLoop rid g))" by simp
    from Cons.IH [OF this] show ?thesis by simp
  next
    case (Sample beta now1 now2)
    with Cons.prems have "\<not> isGameOver (play cs (handleMotion beta now1 now2 g))" by simp
    from Cons.IH [OF this] show ?thesis by (rule handleMotion_running)
  qed
qed


lemma play_speed_double:
  "fl (speed g) = speed g \<Longrightarrow> fl (speed (play cs g)) = speed (play cs g)"
proof (induction cs arbitrary: g)
  case Nil
  then show ?case by simp
next
  case (Cons c cs)
  show ?case
  proof (cases c)
    case (Tick rid)
    have "fl (speed (gameLoop rid g)) = speed (gameLoop rid g)" using Cons.prems by simp
    from Cons.IH [OF this] show ?thesis by (simp add: Tick)
  next
    case (Sample beta now1 now2)
    have "fl (speed (handleMotion beta now1 now2 g)) = speed (handleMotion beta now1 now2 g)"
      using Cons.prems by (rule handleMotion_speed_double)
    from Cons.IH [OF this] show ?thesis by (simp add: Sample)
  qed
qed

lemma play_speed_mono:
  "fl (speed g) = speed g \<Longrightarrow> \<not> isGameOver (play cs g) \<Longrightarrow> speed g \<le> speed (play cs g)"
proof (induction cs arbitrary: g)
  case Nil
  then show ?case by simp
next
  case (Cons c cs)
  show ?case
  proof (cases c)
    case (Tick rid)
    have d: "fl (speed (gameLoop rid g)) = speed (gameLoop rid g)" using Cons.prems by simp
    from Cons.prems have "\<not> isGameOver (play cs (gameLoop rid g))" by (simp add: Tick)
    from Cons.IH [OF d this] show ?thesis by (simp add: Tick)
  next
    case (Sample beta now1 now2)
    let ?h = "handleMotion beta now1 now2 g"
    from Cons.prems have run: "\<not> isGameOver (play cs ?h)" by (simp add: Sample)
    then have h: "\<not> isGameOver ?h" by (rule play_running)
    have d: "fl (speed ?h) = speed ?h" using Cons.prems(1) by (rule handleMotion_speed_double)
    have "speed g \<le> speed ?h"
      using handleMotion_running(4) [OF h] speed_step_mono [OF Cons.prems(1)] by simp
    with Cons.IH [OF d run] show ?thesis by (simp add: Sample)
  qed
qed

lemma div5_step: "((p::int) + 1) div 5 - p div 5 = (if 5 dvd (p + 1) then 1 else 0)"
  by presburger

lemma play_speed:
  "\<not> isGameOver (play cs g) \<Longrightarrow>
     speed (play cs g) =
       ((\<lambda>s. fl (s + fl (7 / 10))) ^^ nat (points (play cs g) div 5 - points g div 5)) (speed g)
     \<and> points g \<le> points (play cs g)"
proof (induction cs arbitrary: g)
  case Nil
  then show ?case by simp
next
  case (Cons c cs)
  show ?case
  proof (cases c)
    case (Tick rid)
    from Cons.prems have "\<not> isGameOver (play cs (gameLoop rid g))" by (simp add: Tick)
    from Cons.IH [OF this] show ?thesis by (simp add: Tick)
  next
    case (Sample beta now1 now2)
    let ?h = "handleMotion beta now1 now2 g"
    let ?F = "\<lambda>s. fl (s + fl (7 / 10))"
    let ?k1 = "points ?h div 5 - points g div 5"
    let ?k2 = "points (play cs ?h) div 5 - points ?h div 5"
    from Cons.prems have run: "\<not> isGameOver (play cs ?h)" by (simp add: Sample)
    then have h: "\<not> isGameOver ?h" by (rule play_running)
    note hm = handleMotion_running [OF h]
    note ih = Cons.IH [OF run]
    have k1: "?k1 = (if points ?h = points g + 1 \<and> 5 dvd (points g + 1) then 1 else 0)"
      using hm(5) div5_step [of "points g"] by auto
    then have st: "speed ?h = (?F ^^ nat ?k1) (speed g)" using hm(4) by simp
    have k1': "0 \<le> ?k1" using k1 by simp
    have k2': "0 \<le> ?k2" using ih by (simp add: zdiv_mono1)
    have "nat (points (play cs ?h) div 5 - points g div 5) = nat ?k2 + nat ?k1"
      using k1' k2' by linarith
    then have "(?F ^^ nat (points (play cs ?h) div 5 - points g div 5)) (speed g)
        = (?F ^^ nat ?k2) ((?F ^^ nat ?k1) (speed g))"
      by (simp only: funpow_add o_apply)
    with ih st hm(3) show ?thesis by (simp add: Sample)
  qed
qed



section \<open>Following a run on a concrete instance\<close>

lemma summary_SunkistGame: "summary SunkistGame = (0, 4, 3, 0, False, 0, [])"
  by (simp add: summary_def)

lemma summary_start:
  "summary (start rid g) = (4, 4, 3, 0, False, lastTiltTime g, recentBetas g)"
  by (simp add: summary_def)

lemma summary_gameLoop:
  "summary (gameLoop rid g) =
     (case summary g of (r, s, l, p, v, t, w) \<Rightarrow>
        (if v then r else js_rem (fl (r + s)) 360, s, l, p, v, t, w))"
  by (simp add: summary_def gameLoop_rotation)

lemma summary_handleMotion:
  "summary (handleMotion (Num b) now1 now2 g) =
     (case summary g of (r, s, l, p, v, t, w) \<Rightarrow>
        if fl (last (pushBeta b w) - hd (pushBeta b w)) > 8 \<and> now1 - t > 200
        then (if isInTargetZone r
              then (r, if 5 dvd (p + 1) then fl (s + fl (7 / 10)) else s, l, p + 1, v, now2,
                    pushBeta b w)
              else if l \<le> 1 then (0, 4, l - 1, p, True, now2, pushBeta b w)
              else (r, s, l - 1, p, v, now2, pushBeta b w))
        else (r, s, l, p, v, t, pushBeta b w))"
  by (simp add: summary_def handleMotion_Num checkHit_more_fields)


lemmas fl_binade = fl_eval [of "- 1"] fl_eval [of 2] fl_eval [of 3] fl_eval [of 4] fl_eval [of 5]
  fl_eval [of 6] fl_eval [of 7] fl_eval [of 8]

lemmas run_eval = summary_handleMotion summary_gameLoop summary_start summary_SunkistGame
  pushBeta_eq isInTargetZone_def normalizedRotation_def js_rem_def fl_binade rte_def
  power_int_minus




section \<open>The claims about runs and pages\<close>

lemma play_ticks_lives: "list_all isTick cs \<Longrightarrow> lives (play cs g) = lives g"
proof (induction cs arbitrary: g)
  case Nil
  then show ?case by simp
next
  case (Cons c cs)
  then show ?case by (cases c) simp_all
qed

lemma three_misses:
  "lives g0 = 3 \<Longrightarrow> \<not> isInTargetZone (rotation g0) \<Longrightarrow>
   lives g1 = lives (checkHit g0) \<Longrightarrow> \<not> isInTargetZone (rotation g1) \<Longrightarrow>
   lives g2 = lives (checkHit g1) \<Longrightarrow> \<not> isInTargetZone (rotation g2) \<Longrightarrow>
   isGameOver (checkHit g2) \<and> lives (checkHit g2) = 0"
  by (simp add: checkHit_more_fields)

text \<open>
  C3. From a freshly started session (3 lives, 0 points, speed 4), three hit evaluations
  that all miss, with any number of ticks before each, end the game: \<open>isGameOver\<close> holds
  and \<open>lives\<close> is 0. On every page reachable from the load, every instance has
  \<open>lives \<ge> 0\<close>, and \<open>lives = 0\<close> only together with \<open>isGameOver\<close>.
\<close>

theorem three_misses_end_game:
  "lives (start rid g) = 3 \<and> points (start rid g) = 0 \<and> speed (start rid g) = 4
   \<and> (list_all isTick t1 \<and> list_all isTick t2 \<and> list_all isTick t3
       \<and> \<not> isInTargetZone (rotation (play t1 (start rid g)))
       \<and> \<not> isInTargetZone (rotation (play t2 (checkHit (play t1 (start rid g)))))
       \<and> \<not> isInTargetZone
             (rotation (play t3 (checkHit (play t2 (checkHit (play t1 (start rid g)))))))
       \<longrightarrow>
       isGameOver (checkHit (play t3 (checkHit (play t2 (checkHit (play t1 (start rid g)))))))
       \<and> lives (checkHit (play t3 (checkHit (play t2 (checkHit (play t1 (start rid g))))))) = 0)
   \<and> (\<forall>h \<in> set (instances (run evs (pageLoad emptyPage))).
         0 \<le> lives h \<and> (lives h = 0 \<longrightarrow> isGameOver h))"
proof -
  have "tidy (run evs (pageLoad emptyPage))" by (rule tidy_reachable)
  then have w: "\<forall>h \<in> set (instances (run evs (pageLoad emptyPage))).
         0 \<le> lives h \<and> (lives h = 0 \<longrightarrow> isGameOver h)"
    by (simp add: tidy_def list_all_iff sound_def)
  have m: "isGameOver (checkHit (play t3 (checkHit (play t2 (checkHit (play t1 (start rid g)))))))
       \<and> lives (checkHit (play t3 (checkHit (play t2 (checkHit (play t1 (start rid g))))))) = 0"
    if "list_all isTick t1" "list_all isTick t2" "list_all isTick t3"
      "\<not> isInTargetZone (rotation (play t1 (start rid g)))"
      "\<not> isInTargetZone (rotation (play t2 (checkHit (play t1 (start rid g)))))"
      "\<not> isInTargetZone
             (rotation (play t3 (checkHit (play t2 (checkHit (play t1 (start rid g)))))))"
  proof (rule three_misses)
    show "lives (play t1 (start rid g)) = 3" using that(1) by (simp add: play_ticks_lives)
    show "\<not> isInTargetZone (rotation (play t1 (start rid g)))" by (rule that(4))
    show "lives (play t2 (checkHit (play t1 (start rid g)))) = lives (checkHit (play t1 (start rid g)))"
      using that(2) by (rule play_ticks_lives)
    show "\<not> isInTargetZone (rotation (play t2 (checkHit (play t1 (start rid g)))))" by (rule that(5))
    show "lives (play t3 (checkHit (play t2 (checkHit (play t1 (start rid g))))))
        = lives (checkHit (play t2 (checkHit (play t1 (start rid g)))))"
      using that(3) by (rule play_ticks_lives)
    show "\<not> isInTargetZone
             (rotation (play t3 (checkHit (play t2 (checkHit (play t1 (start rid g)))))))"
      by (rule that(6))
  qed
  from w m show ?thesis by simp
qed

theorem three_misses_end_game_witness:
  "list_all isTick [Tick 2, Tick 3, Tick 4, Tick 5, Tick 6, Tick 7]
   \<and> rotation (play [Tick 2, Tick 3, Tick 4, Tick 5, Tick 6, Tick 7] (start 1 SunkistGame)) = 28
   \<and> \<not> isInTargetZone 28
   \<and> isGameOver (checkHit (play [] (checkHit (play []
        (checkHit (play [Tick 2, Tick 3, Tick 4, Tick 5, Tick 6, Tick 7] (start 1 SunkistGame)))))))
   \<and> lives (checkHit (play [] (checkHit (play []
        (checkHit (play [Tick 2, Tick 3, Tick 4, Tick 5, Tick 6, Tick 7] (start 1 SunkistGame))))))) = 0
   \<and> map (\<lambda>h. (lives h, isGameOver h))
        (instances (run [Tap True 1, AnimationFrame 2, AnimationFrame 3, AnimationFrame 4,
           AnimationFrame 5, AnimationFrame 6, AnimationFrame 7,
           Orientation (Num 0) 1000 1000, Orientation (Num 10) 1001 1002,
           Orientation (Num 20) 1300 1301, Orientation (Num 30) 1600 1601] (pageLoad emptyPage)))
      = [(0, True)]"
proof -
  have r: "rotation (play [Tick 2, Tick 3, Tick 4, Tick 5, Tick 6, Tick 7] (start 1 SunkistGame)) = 28"
    by (simp add: gameLoop_rotation js_rem_id)
  have z: "\<not> isInTargetZone 28"
    by (simp add: isInTargetZone_def)
  have w: "map (\<lambda>h. (lives h, isGameOver h))
        (instances (run [Tap True 1, AnimationFrame 2, AnimationFrame 3, AnimationFrame 4,
           AnimationFrame 5, AnimationFrame 6, AnimationFrame 7,
           Orientation (Num 0) 1000 1000, Orientation (Num 10) 1001 1002,
           Orientation (Num 20) 1300 1301, Orientation (Num 30) 1600 1601] (pageLoad emptyPage)))
      = [(0, True)]"
    by (simp add: pageLoad_def emptyPage_def startGame_def onInstances_def deliverFrame_def
        instances_def start_def gameLoop_def cancelFrame_def js_rem_id SunkistGame_def
        initializeGame_def showWelcomeMessage_def deliverOrientation_def handleMotion_Num
        pushBeta_eq checkHit_def isInTargetZone_def endGame_def cleanup_def)
  have c: "rotation (checkHit h) = 28" if "rotation h = 28" "1 < lives h" for h
    using that by (simp add: checkHit_more_fields)
  have l: "lives (play [Tick 2, Tick 3, Tick 4, Tick 5, Tick 6, Tick 7] (start 1 SunkistGame)) = 3"
    by simp
  have r1: "rotation (checkHit (play [Tick 2, Tick 3, Tick 4, Tick 5, Tick 6, Tick 7] (start 1 SunkistGame))) = 28"
    using r l by (simp add: c)
  have r2: "rotation (checkHit (checkHit (play [Tick 2, Tick 3, Tick 4, Tick 5, Tick 6, Tick 7] (start 1 SunkistGame)))) = 28"
    using r1 r l z by (simp add: c)
  from three_misses_end_game [of 1 SunkistGame "[Tick 2, Tick 3, Tick 4, Tick 5, Tick 6, Tick 7]" "[]" "[]"
      "[Tap True 1, AnimationFrame 2, AnimationFrame 3, AnimationFrame 4,
           AnimationFrame 5, AnimationFrame 6, AnimationFrame 7,
           Orientation (Num 0) 1000 1000, Orientation (Num 10) 1001 1002,
           Orientation (Num 20) 1300 1301, Orientation (Num 30) 1600 1601]"]
  show ?thesis using r z w r1 r2 by simp
qed


text \<open>
  C4 as stated fails twice. The miss that takes the last life is made in a running game
  and takes the speed from 4.7 back to 4; and the first raise of the speed, from 4, is
  not by 7/10 but by 788129934789837 / 1125899906842624, because the sum is rounded.
\<close>

theorem speed_within_run_counterexample:
  "\<not> isGameOver (play 
       [Sample (Num 0) 1000 1000, Sample (Num 10) 1300 1300,
        Sample (Num 20) 1600 1600, Sample (Num 30) 1900 1900,
        Sample (Num 40) 2200 2200, Sample (Num 50) 2500 2500, Tick 2, Tick 3,
        Tick 4, Tick 5, Tick 6, Sample (Num 60) 2800 2800,
        Sample (Num 70) 3100 3100] (start 1 SunkistGame))
   \<and> speed (play 
       [Sample (Num 0) 1000 1000, Sample (Num 10) 1300 1300,
        Sample (Num 20) 1600 1600, Sample (Num 30) 1900 1900,
        Sample (Num 40) 2200 2200, Sample (Num 50) 2500 2500, Tick 2, Tick 3,
        Tick 4, Tick 5, Tick 6, Sample (Num 60) 2800 2800,
        Sample (Num 70) 3100 3100] (start 1 SunkistGame)) = 5291729562160333 / 1125899906842624
   \<and> speed (handleMotion (Num 80) 3400 3400 (play 
       [Sample (Num 0) 1000 1000, Sample (Num 10) 1300 1300,
        Sample (Num 20) 1600 1600, Sample (Num 30) 1900 1900,
        Sample (Num 40) 2200 2200, Sample (Num 50) 2500 2500, Tick 2, Tick 3,
        Tick 4, Tick 5, Tick 6, Sample (Num 60) 2800 2800,
        Sample (Num 70) 3100 3100] (start 1 SunkistGame))) = 4
   \<and> speed (handleMotion (Num 80) 3400 3400 (play 
       [Sample (Num 0) 1000 1000, Sample (Num 10) 1300 1300,
        Sample (Num 20) 1600 1600, Sample (Num 30) 1900 1900,
        Sample (Num 40) 2200 2200, Sample (Num 50) 2500 2500, Tick 2, Tick 3,
        Tick 4, Tick 5, Tick 6, Sample (Num 60) 2800 2800,
        Sample (Num 70) 3100 3100] (start 1 SunkistGame)))
       < speed (play 
       [Sample (Num 0) 1000 1000, Sample (Num 10) 1300 1300,
        Sample (Num 20) 1600 1600, Sample (Num 30) 1900 1900,
        Sample (Num 40) 2200 2200, Sample (Num 50) 2500 2500, Tick 2, Tick 3,
        Tick 4, Tick 5, Tick 6, Sample (Num 60) 2800 2800,
        Sample (Num 70) 3100 3100] (start 1 SunkistGame))
   \<and> speed (play 
       [Sample (Num 0) 1000 1000, Sample (Num 10) 1300 1300,
        Sample (Num 20) 1600 1600, Sample (Num 30) 1900 1900,
        Sample (Num 40) 2200 2200] (start 1 SunkistGame)) = 4
   \<and> speed (play 
       [Sample (Num 0) 1000 1000, Sample (Num 10) 1300 1300,
        Sample (Num 20) 1600 1600, Sample (Num 30) 1900 1900,
        Sample (Num 40) 2200 2200, Sample (Num 50) 2500 2500] (start 1 SunkistGame)) - speed (play 
       [Sample (Num 0) 1000 1000, Sample (Num 10) 1300 1300,
        Sample (Num 20) 1600 1600, Sample (Num 30) 1900 1900,
        Sample (Num 40) 2200 2200] (start 1 SunkistGame))
       = 788129934789837 / 1125899906842624
   \<and> speed (play 
       [Sample (Num 0) 1000 1000, Sample (Num 10) 1300 1300,
        Sample (Num 20) 1600 1600, Sample (Num 30) 1900 1900,
        Sample (Num 40) 2200 2200, Sample (Num 50) 2500 2500] (start 1 SunkistGame)) - speed (play 
       [Sample (Num 0) 1000 1000, Sample (Num 10) 1300 1300,
        Sample (Num 20) 1600 1600, Sample (Num 30) 1900 1900,
        Sample (Num 40) 2200 2200] (start 1 SunkistGame))
       \<noteq> 7 / 10"
proof -
  have a: "summary (play 
       [Sample (Num 0) 1000 1000, Sample (Num 10) 1300 1300,
        Sample (Num 20) 1600 1600, Sample (Num 30) 1900 1900,
        Sample (Num 40) 2200 2200, Sample (Num 50) 2500 2500, Tick 2, Tick 3,
        Tick 4, Tick 5, Tick 6, Sample (Num 60) 2800 2800,
        Sample (Num 70) 3100 3100] (start 1 SunkistGame))
      = (7740561859543039 / 281474976710656, 5291729562160333 / 1125899906842624, 1, 5,
         False, 3100, [50, 60, 70])"
    by (simp add: run_eval)
  have b: "summary (handleMotion (Num 80) 3400 3400 (play 
       [Sample (Num 0) 1000 1000, Sample (Num 10) 1300 1300,
        Sample (Num 20) 1600 1600, Sample (Num 30) 1900 1900,
        Sample (Num 40) 2200 2200, Sample (Num 50) 2500 2500, Tick 2, Tick 3,
        Tick 4, Tick 5, Tick 6, Sample (Num 60) 2800 2800,
        Sample (Num 70) 3100 3100] (start 1 SunkistGame)))
      = (0, 4, 0, 5, True, 3400, [60, 70, 80])"
    unfolding summary_handleMotion a by (simp add: run_eval)
  have c: "summary (play 
       [Sample (Num 0) 1000 1000, Sample (Num 10) 1300 1300,
        Sample (Num 20) 1600 1600, Sample (Num 30) 1900 1900,
        Sample (Num 40) 2200 2200] (start 1 SunkistGame)) = (4, 4, 3, 4, False, 2200, [20, 30, 40])"
    by (simp add: run_eval)
  have d: "summary (play 
       [Sample (Num 0) 1000 1000, Sample (Num 10) 1300 1300,
        Sample (Num 20) 1600 1600, Sample (Num 30) 1900 1900,
        Sample (Num 40) 2200 2200, Sample (Num 50) 2500 2500] (start 1 SunkistGame))
      = (4, 5291729562160333 / 1125899906842624, 3, 5, False, 2500, [30, 40, 50])"
    by (simp add: run_eval)
  from a b c d show ?thesis by (simp add: summary_def)
qed

text \<open>
  C4, amended. Within a run, that is as long as the game is not over, speed never
  decreases: a tick leaves it alone, and a call of \<open>handleMotion\<close> leaves it alone unless
  it scores the point that makes \<open>points\<close> a multiple of 5; then the speed becomes the
  double nearest to speed + 0.7, where 0.7 is the double nearest to 7/10, and that is not
  below the speed before. Over any sequence of calls the speed has been raised in this
  way once for each multiple of 5 that \<open>points\<close> has reached. The miss that takes the last
  life ends the run and puts the speed back to 4.
\<close>

theorem speed_within_run:
  "speed (gameLoop rid g) = speed g
   \<and> (\<not> isGameOver (handleMotion beta now1 now2 g) \<longrightarrow>
        speed (handleMotion beta now1 now2 g) =
          (if points (handleMotion beta now1 now2 g) = points g + 1 \<and> 5 dvd (points g + 1)
           then fl (speed g + fl (7 / 10)) else speed g))
   \<and> (fl (speed g) = speed g \<longrightarrow> speed g \<le> fl (speed g + fl (7 / 10)))
   \<and> (fl (speed g) = speed g \<and> \<not> isGameOver (play cs g) \<longrightarrow> speed g \<le> speed (play cs g))
   \<and> (\<not> isGameOver (play cs g) \<longrightarrow>
        speed (play cs g) =
          ((\<lambda>s. fl (s + fl (7 / 10))) ^^ nat (points (play cs g) div 5 - points g div 5))
            (speed g)
        \<and> points g \<le> points (play cs g))
   \<and> (\<not> isGameOver g \<and> isGameOver (handleMotion beta now1 now2 g) \<longrightarrow>
        speed (handleMotion beta now1 now2 g) = 4 \<and> lives (handleMotion beta now1 now2 g) \<le> 0)
   \<and> fl (7 / 10) = 3152519739159347 / 4503599627370496
   \<and> (\<forall>h \<in> set (instances (run evs (pageLoad emptyPage))).
         fl (speed h) = speed h \<and> 4 \<le> speed h)"
proof -
  have "tidy (run evs (pageLoad emptyPage))" by (rule tidy_reachable)
  then have w: "\<forall>h \<in> set (instances (run evs (pageLoad emptyPage))).
         fl (speed h) = speed h \<and> 4 \<le> speed h"
    by (simp add: tidy_def list_all_iff sound_def)
  have a: "speed (gameLoop rid g) = speed g" by simp
  have b: "speed (handleMotion beta now1 now2 g) =
          (if points (handleMotion beta now1 now2 g) = points g + 1 \<and> 5 dvd (points g + 1)
           then fl (speed g + fl (7 / 10)) else speed g)"
    if "\<not> isGameOver (handleMotion beta now1 now2 g)"
    using that by (rule handleMotion_running(4))
  have c: "speed g \<le> fl (speed g + fl (7 / 10))" if "fl (speed g) = speed g"
    using that by (rule speed_step_mono)
  have d: "speed g \<le> speed (play cs g)" if "fl (speed g) = speed g \<and> \<not> isGameOver (play cs g)"
    using that by (simp add: play_speed_mono)
  have e: "speed (play cs g) =
          ((\<lambda>s. fl (s + fl (7 / 10))) ^^ nat (points (play cs g) div 5 - points g div 5))
            (speed g)
        \<and> points g \<le> points (play cs g)"
    if "\<not> isGameOver (play cs g)"
    using that by (rule play_speed)
  have f: "speed (handleMotion beta now1 now2 g) = 4 \<and> lives (handleMotion beta now1 now2 g) \<le> 0"
    if "\<not> isGameOver g \<and> isGameOver (handleMotion beta now1 now2 g)"
  proof (cases beta)
    case (Num x)
    show ?thesis using that unfolding Num handleMotion_Num
      by (auto simp add: checkHit_more_fields split: if_splits)
  qed (use that in \<open>simp_all add: handleMotion_def\<close>)
  have g: "fl (7 / 10) = 3152519739159347 / 4503599627370496"
    by (simp add: fl_binade rte_def power_int_minus)
  from a b c d e f g w show ?thesis by blast
qed

theorem speed_within_run_witness:
  "\<not> isGameOver (play 
       [Sample (Num 0) 1000 1000, Sample (Num 10) 1300 1300,
        Sample (Num 20) 1600 1600, Sample (Num 30) 1900 1900,
        Sample (Num 40) 2200 2200, Sample (Num 50) 2500 2500] (start 1 SunkistGame))
   \<and> fl (speed (start 1 SunkistGame)) = speed (start 1 SunkistGame)
   \<and> points (play 
       [Sample (Num 0) 1000 1000, Sample (Num 10) 1300 1300,
        Sample (Num 20) 1600 1600, Sample (Num 30) 1900 1900,
        Sample (Num 40) 2200 2200, Sample (Num 50) 2500 2500] (start 1 SunkistGame)) = 5
   \<and> speed (play 
       [Sample (Num 0) 1000 1000, Sample (Num 10) 1300 1300,
        Sample (Num 20) 1600 1600, Sample (Num 30) 1900 1900,
        Sample (Num 40) 2200 2200, Sample (Num 50) 2500 2500] (start 1 SunkistGame)) = fl (4 + fl (7 / 10))
   \<and> speed (start 1 SunkistGame) \<le> speed (play 
       [Sample (Num 0) 1000 1000, Sample (Num 10) 1300 1300,
        Sample (Num 20) 1600 1600, Sample (Num 30) 1900 1900,
        Sample (Num 40) 2200 2200, Sample (Num 50) 2500 2500] (start 1 SunkistGame))
   \<and> \<not> isGameOver (handleMotion (Num 50) 2500 2500 (play 
       [Sample (Num 0) 1000 1000, Sample (Num 10) 1300 1300,
        Sample (Num 20) 1600 1600, Sample (Num 30) 1900 1900,
        Sample (Num 40) 2200 2200] (start 1 SunkistGame)))
   \<and> points (handleMotion (Num 50) 2500 2500 (play 
       [Sample (Num 0) 1000 1000, Sample (Num 10) 1300 1300,
        Sample (Num 20) 1600 1600, Sample (Num 30) 1900 1900,
        Sample (Num 40) 2200 2200] (start 1 SunkistGame))) = 5
   \<and> speed (handleMotion (Num 50) 2500 2500 (play 
       [Sample (Num 0) 1000 1000, Sample (Num 10) 1300 1300,
        Sample (Num 20) 1600 1600, Sample (Num 30) 1900 1900,
        Sample (Num 40) 2200 2200] (start 1 SunkistGame)))
       = fl (4 + fl (7 / 10))
   \<and> \<not> isGameOver (play 
       [Sample (Num 0) 1000 1000, Sample (Num 10) 1300 1300,
        Sample (Num 20) 1600 1600, Sample (Num 30) 1900 1900,
        Sample (Num 40) 2200 2200, Sample (Num 50) 2500 2500, Tick 2, Tick 3,
        Tick 4, Tick 5, Tick 6, Sample (Num 60) 2800 2800,
        Sample (Num 70) 3100 3100] (start 1 SunkistGame))
   \<and> isGameOver (handleMotion (Num 80) 3400 3400 (play 
       [Sample (Num 0) 1000 1000, Sample (Num 10) 1300 1300,
        Sample (Num 20) 1600 1600, Sample (Num 30) 1900 1900,
        Sample (Num 40) 2200 2200, Sample (Num 50) 2500 2500, Tick 2, Tick 3,
        Tick 4, Tick 5, Tick 6, Sample (Num 60) 2800 2800,
        Sample (Num 70) 3100 3100] (start 1 SunkistGame)))
   \<and> speed (handleMotion (Num 80) 3400 3400 (play 
       [Sample (Num 0) 1000 1000, Sample (Num 10) 1300 1300,
        Sample (Num 20) 1600 1600, Sample (Num 30) 1900 1900,
        Sample (Num 40) 2200 2200, Sample (Num 50) 2500 2500, Tick 2, Tick 3,
        Tick 4, Tick 5, Tick 6, Sample (Num 60) 2800 2800,
        Sample (Num 70) 3100 3100] (start 1 SunkistGame))) = 4
   \<and> map speed (instances (run [Tap True 1, PlayAgain] (pageLoad emptyPage))) = [4, 4]"
proof -
  have a: "summary (play 
       [Sample (Num 0) 1000 1000, Sample (Num 10) 1300 1300,
        Sample (Num 20) 1600 1600, Sample (Num 30) 1900 1900,
        Sample (Num 40) 2200 2200, Sample (Num 50) 2500 2500, Tick 2, Tick 3,
        Tick 4, Tick 5, Tick 6, Sample (Num 60) 2800 2800,
        Sample (Num 70) 3100 3100] (start 1 SunkistGame))
      = (7740561859543039 / 281474976710656, 5291729562160333 / 1125899906842624, 1, 5,
         False, 3100, [50, 60, 70])"
    by (simp add: run_eval)
  have b: "summary (handleMotion (Num 80) 3400 3400 (play 
       [Sample (Num 0) 1000 1000, Sample (Num 10) 1300 1300,
        Sample (Num 20) 1600 1600, Sample (Num 30) 1900 1900,
        Sample (Num 40) 2200 2200, Sample (Num 50) 2500 2500, Tick 2, Tick 3,
        Tick 4, Tick 5, Tick 6, Sample (Num 60) 2800 2800,
        Sample (Num 70) 3100 3100] (start 1 SunkistGame)))
      = (0, 4, 0, 5, True, 3400, [60, 70, 80])"
    unfolding summary_handleMotion a by (simp add: run_eval)
  have d: "summary (play 
       [Sample (Num 0) 1000 1000, Sample (Num 10) 1300 1300,
        Sample (Num 20) 1600 1600, Sample (Num 30) 1900 1900,
        Sample (Num 40) 2200 2200, Sample (Num 50) 2500 2500] (start 1 SunkistGame))
      = (4, 5291729562160333 / 1125899906842624, 3, 5, False, 2500, [30, 40, 50])"
    by (simp add: run_eval)
  have o1: "\<not> isGameOver (play 
       [Sample (Num 0) 1000 1000, Sample (Num 10) 1300 1300,
        Sample (Num 20) 1600 1600, Sample (Num 30) 1900 1900,
        Sample (Num 40) 2200 2200, Sample (Num 50) 2500 2500] (start 1 SunkistGame))"
    and p1: "points (play 
       [Sample (Num 0) 1000 1000, Sample (Num 10) 1300 1300,
        Sample (Num 20) 1600 1600, Sample (Num 30) 1900 1900,
        Sample (Num 40) 2200 2200, Sample (Num 50) 2500 2500] (start 1 SunkistGame)) = 5"
    using d by (simp_all add: summary_def)
  have o2: "\<not> isGameOver (play 
       [Sample (Num 0) 1000 1000, Sample (Num 10) 1300 1300,
        Sample (Num 20) 1600 1600, Sample (Num 30) 1900 1900,
        Sample (Num 40) 2200 2200, Sample (Num 50) 2500 2500, Tick 2, Tick 3,
        Tick 4, Tick 5, Tick 6, Sample (Num 60) 2800 2800,
        Sample (Num 70) 3100 3100] (start 1 SunkistGame))" using a by (simp add: summary_def)
  have o3: "isGameOver (handleMotion (Num 80) 3400 3400 (play 
       [Sample (Num 0) 1000 1000, Sample (Num 10) 1300 1300,
        Sample (Num 20) 1600 1600, Sample (Num 30) 1900 1900,
        Sample (Num 40) 2200 2200, Sample (Num 50) 2500 2500, Tick 2, Tick 3,
        Tick 4, Tick 5, Tick 6, Sample (Num 60) 2800 2800,
        Sample (Num 70) 3100 3100] (start 1 SunkistGame)))"
    using b by (simp add: summary_def)
  have s0: "fl (speed (start 1 SunkistGame)) = speed (start 1 SunkistGame)" by simp
  have c: "summary (play 
       [Sample (Num 0) 1000 1000, Sample (Num 10) 1300 1300,
        Sample (Num 20) 1600 1600, Sample (Num 30) 1900 1900,
        Sample (Num 40) 2200 2200] (start 1 SunkistGame)) = (4, 4, 3, 4, False, 2200, [20, 30, 40])"
    by (simp add: run_eval)
  have c': "summary (handleMotion (Num 50) 2500 2500 (play 
       [Sample (Num 0) 1000 1000, Sample (Num 10) 1300 1300,
        Sample (Num 20) 1600 1600, Sample (Num 30) 1900 1900,
        Sample (Num 40) 2200 2200] (start 1 SunkistGame)))
      = (4, 5291729562160333 / 1125899906842624, 3, 5, False, 2500, [30, 40, 50])"
    unfolding summary_handleMotion c by (simp add: run_eval)
  have o4: "\<not> isGameOver (handleMotion (Num 50) 2500 2500 (play 
       [Sample (Num 0) 1000 1000, Sample (Num 10) 1300 1300,
        Sample (Num 20) 1600 1600, Sample (Num 30) 1900 1900,
        Sample (Num 40) 2200 2200] (start 1 SunkistGame)))"
    and p4: "points (handleMotion (Num 50) 2500 2500 (play 
       [Sample (Num 0) 1000 1000, Sample (Num 10) 1300 1300,
        Sample (Num 20) 1600 1600, Sample (Num 30) 1900 1900,
        Sample (Num 40) 2200 2200] (start 1 SunkistGame))) = 5"
    using c' by (simp_all add: summary_def)
  have q4: "points (play 
       [Sample (Num 0) 1000 1000, Sample (Num 10) 1300 1300,
        Sample (Num 20) 1600 1600, Sample (Num 30) 1900 1900,
        Sample (Num 40) 2200 2200] (start 1 SunkistGame)) = 4"
    and r4: "speed (play 
       [Sample (Num 0) 1000 1000, Sample (Num 10) 1300 1300,
        Sample (Num 20) 1600 1600, Sample (Num 30) 1900 1900,
        Sample (Num 40) 2200 2200] (start 1 SunkistGame)) = 4"
    using c by (simp_all add: summary_def)
  note t3 = speed_within_run [of 2 "play 
       [Sample (Num 0) 1000 1000, Sample (Num 10) 1300 1300,
        Sample (Num 20) 1600 1600, Sample (Num 30) 1900 1900,
        Sample (Num 40) 2200 2200] (start 1 SunkistGame)" "Num 50" 2500 2500 "[]"]
  from t3 o4 have "speed (handleMotion (Num 50) 2500 2500 (play 
       [Sample (Num 0) 1000 1000, Sample (Num 10) 1300 1300,
        Sample (Num 20) 1600 1600, Sample (Num 30) 1900 1900,
        Sample (Num 40) 2200 2200] (start 1 SunkistGame))) =
      (if points (handleMotion (Num 50) 2500 2500 (play 
       [Sample (Num 0) 1000 1000, Sample (Num 10) 1300 1300,
        Sample (Num 20) 1600 1600, Sample (Num 30) 1900 1900,
        Sample (Num 40) 2200 2200] (start 1 SunkistGame)))
            = points (play 
       [Sample (Num 0) 1000 1000, Sample (Num 10) 1300 1300,
        Sample (Num 20) 1600 1600, Sample (Num 30) 1900 1900,
        Sample (Num 40) 2200 2200] (start 1 SunkistGame)) + 1
          \<and> 5 dvd (points (play 
       [Sample (Num 0) 1000 1000, Sample (Num 10) 1300 1300,
        Sample (Num 20) 1600 1600, Sample (Num 30) 1900 1900,
        Sample (Num 40) 2200 2200] (start 1 SunkistGame)) + 1)
       then fl (speed (play 
       [Sample (Num 0) 1000 1000, Sample (Num 10) 1300 1300,
        Sample (Num 20) 1600 1600, Sample (Num 30) 1900 1900,
        Sample (Num 40) 2200 2200] (start 1 SunkistGame)) + fl (7 / 10))
       else speed (play 
       [Sample (Num 0) 1000 1000, Sample (Num 10) 1300 1300,
        Sample (Num 20) 1600 1600, Sample (Num 30) 1900 1900,
        Sample (Num 40) 2200 2200] (start 1 SunkistGame)))"
    by blast
  then have e4: "speed (handleMotion (Num 50) 2500 2500 (play 
       [Sample (Num 0) 1000 1000, Sample (Num 10) 1300 1300,
        Sample (Num 20) 1600 1600, Sample (Num 30) 1900 1900,
        Sample (Num 40) 2200 2200] (start 1 SunkistGame)))
      = fl (4 + fl (7 / 10))"
    unfolding p4 q4 r4 by simp
  note t1 = speed_within_run [of 2 "start 1 SunkistGame" Null 0 0 "
       [Sample (Num 0) 1000 1000, Sample (Num 10) 1300 1300,
        Sample (Num 20) 1600 1600, Sample (Num 30) 1900 1900,
        Sample (Num 40) 2200 2200, Sample (Num 50) 2500 2500]"]
  note t2 = speed_within_run [of 2 "play 
       [Sample (Num 0) 1000 1000, Sample (Num 10) 1300 1300,
        Sample (Num 20) 1600 1600, Sample (Num 30) 1900 1900,
        Sample (Num 40) 2200 2200, Sample (Num 50) 2500 2500, Tick 2, Tick 3,
        Tick 4, Tick 5, Tick 6, Sample (Num 60) 2800 2800,
        Sample (Num 70) 3100 3100] (start 1 SunkistGame)" "Num 80" 3400 3400 "[]"]
  from t1 o1 have "speed (play 
       [Sample (Num 0) 1000 1000, Sample (Num 10) 1300 1300,
        Sample (Num 20) 1600 1600, Sample (Num 30) 1900 1900,
        Sample (Num 40) 2200 2200, Sample (Num 50) 2500 2500] (start 1 SunkistGame)) =
      ((\<lambda>s. fl (s + fl (7 / 10))) ^^ nat (points (play 
       [Sample (Num 0) 1000 1000, Sample (Num 10) 1300 1300,
        Sample (Num 20) 1600 1600, Sample (Num 30) 1900 1900,
        Sample (Num 40) 2200 2200, Sample (Num 50) 2500 2500] (start 1 SunkistGame)) div 5
          - points (start 1 SunkistGame) div 5)) (speed (start 1 SunkistGame))"
    by blast
  then have e1: "speed (play 
       [Sample (Num 0) 1000 1000, Sample (Num 10) 1300 1300,
        Sample (Num 20) 1600 1600, Sample (Num 30) 1900 1900,
        Sample (Num 40) 2200 2200, Sample (Num 50) 2500 2500] (start 1 SunkistGame)) = fl (4 + fl (7 / 10))"
    unfolding p1 by simp
  from t1 o1 s0 have e2: "speed (start 1 SunkistGame) \<le> speed (play 
       [Sample (Num 0) 1000 1000, Sample (Num 10) 1300 1300,
        Sample (Num 20) 1600 1600, Sample (Num 30) 1900 1900,
        Sample (Num 40) 2200 2200, Sample (Num 50) 2500 2500] (start 1 SunkistGame))"
    by blast
  from t2 o2 o3 have e3: "speed (handleMotion (Num 80) 3400 3400 (play 
       [Sample (Num 0) 1000 1000, Sample (Num 10) 1300 1300,
        Sample (Num 20) 1600 1600, Sample (Num 30) 1900 1900,
        Sample (Num 40) 2200 2200, Sample (Num 50) 2500 2500, Tick 2, Tick 3,
        Tick 4, Tick 5, Tick 6, Sample (Num 60) 2800 2800,
        Sample (Num 70) 3100 3100] (start 1 SunkistGame))) = 4"
    by blast
  have pg: "map speed (instances (run [Tap True 1, PlayAgain] (pageLoad emptyPage))) = [4, 4]"
    by (simp add: instances_def restartGame_def startGame_def pageLoad_def emptyPage_def)
  from o1 s0 p1 e1 e2 o4 p4 e4 o2 o3 e3 pg show ?thesis by blast
qed




lemma filter_unsubscribed: "list_all (\<lambda>g. \<not> subscribed g) gs \<Longrightarrow> filter subscribed gs = []"
  by (induction gs) simp_all

lemma tidy_activeSubscriptions:
  "tidy w \<Longrightarrow> activeSubscriptions w =
     (case currentGame w of None \<Rightarrow> 0 | Some g \<Rightarrow> if subscribed g then 1 else 0)"
  by (cases "currentGame w")
     (simp_all add: tidy_def activeSubscriptions_def instances_def filter_unsubscribed)

lemma currentGame_restartGame: "currentGame (restartGame w) = Some SunkistGame"
  by (cases "currentGame w") (simp_all add: restartGame_def)

text \<open>
  C8 as stated fails: right after \<open>restartGame\<close> no orientation listener is registered at
  all, since the new instance subscribes only in \<open>start\<close>; and \<open>start\<close> runs the first
  tick at once, so that by the time one listener is registered the rotation is 4.
\<close>

theorem restart_one_subscription_counterexample:
  "activeSubscriptions (restartGame (startGame True 1 (pageLoad emptyPage))) = 0
   \<and> activeSubscriptions (restartGame (startGame True 1 (pageLoad emptyPage))) \<noteq> 1
   \<and> map_option rotation
        (currentGame (startGame True 2 (restartGame (startGame True 1 (pageLoad emptyPage)))))
       = Some 4"
  by (simp add: activeSubscriptions_def instances_def restartGame_def startGame_def
      pageLoad_def emptyPage_def)

text \<open>
  C8, amended. After \<open>restartGame\<close>, following any events and so any number of earlier
  restarts, the new session has 3 lives, 0 points, rotation 0 and speed 4, and no
  orientation listener is registered; once \<open>startGame\<close> has started the new session
  exactly one is. At no time is there more than one.
\<close>

theorem restartGame_fresh_session:
  "map_option (\<lambda>h. (lives h, points h, rotation h, speed h))
       (currentGame (restartGame (run evs (pageLoad emptyPage)))) = Some (3, 0, 0, 4)
   \<and> activeSubscriptions (restartGame (run evs (pageLoad emptyPage))) = 0
   \<and> activeSubscriptions (startGame True rid (restartGame (run evs (pageLoad emptyPage)))) = 1
   \<and> map_option (\<lambda>h. (lives h, points h, rotation h, speed h))
       (currentGame (startGame True rid (restartGame (run evs (pageLoad emptyPage)))))
       = Some (3, 0, 4, 4)
   \<and> activeSubscriptions (run evs (pageLoad emptyPage)) \<le> 1"
proof -
  let ?w = "run evs (pageLoad emptyPage)"
  have t: "tidy ?w" by (rule tidy_reachable)
  then have tr: "tidy (restartGame ?w)" by (rule tidy_restartGame)
  then have ts: "tidy (startGame True rid (restartGame ?w))" by (rule tidy_startGame)
  have a: "activeSubscriptions ?w \<le> 1"
    unfolding tidy_activeSubscriptions [OF t] by (simp split: option.split)
  have b: "activeSubscriptions (restartGame ?w) = 0"
    unfolding tidy_activeSubscriptions [OF tr] by (simp add: currentGame_restartGame)
  have c: "activeSubscriptions (startGame True rid (restartGame ?w)) = 1"
    unfolding tidy_activeSubscriptions [OF ts]
    by (simp add: startGame_def currentGame_restartGame)
  from a b c show ?thesis by (simp add: currentGame_restartGame startGame_def)
qed

theorem restartGame_fresh_session_witness:
  "activeSubscriptions (restartGame (run [Tap True 1, PlayAgain, Tap True 2, PlayAgain] (pageLoad emptyPage))) = 0
   \<and> activeSubscriptions (startGame True 3
        (restartGame (run [Tap True 1, PlayAgain, Tap True 2, PlayAgain] (pageLoad emptyPage)))) = 1
   \<and> activeSubscriptions (run [Tap True 1, PlayAgain, Tap True 2] (pageLoad emptyPage)) = 1"
proof -
  have "activeSubscriptions (run [Tap True 1, PlayAgain, Tap True 2] (pageLoad emptyPage)) = 1"
    by (simp add: activeSubscriptions_def instances_def restartGame_def startGame_def
        pageLoad_def emptyPage_def)
  with restartGame_fresh_session [of "[Tap True 1, PlayAgain, Tap True 2, PlayAgain]" 3]
  show ?thesis by simp
qed

end
